theory Spec2Isabelle
  imports Complex_Main "HOL-Library.Word" "HOL-Library.Monad_Syntax"
begin

section \<open>JavaScript strings\<close>

text \<open>
  A JavaScript string is a sequence of UTF-16 code units. \<open>length\<close>, \<open>slice\<close>,
  \<open>trim\<close>, \<open>startsWith\<close> and a regular expression without the \<open>u\<close> flag work on code
  units; a regular expression with the \<open>u\<close> flag reads a surrogate pair as one code point.
\<close>

type_synonym jsstring = "16 word list"

definition ascii :: "string \<Rightarrow> jsstring" where
  "ascii s = map of_char s"

definition isWhiteSpace :: "16 word \<Rightarrow> bool" where
  \<comment> \<open>WhiteSpace and LineTerminator of ECMAScript: the class \<open>\s\<close> and what \<open>trim\<close> strips\<close>
  "isWhiteSpace c \<longleftrightarrow>
     (0x09 \<le> c \<and> c \<le> 0x0D) \<or> c = 0x20 \<or> c = 0xA0 \<or> c = 0x1680 \<or>
     (0x2000 \<le> c \<and> c \<le> 0x200A) \<or> c = 0x2028 \<or> c = 0x2029 \<or> c = 0x202F \<or>
     c = 0x205F \<or> c = 0x3000 \<or> c = 0xFEFF"

definition trim :: "jsstring \<Rightarrow> jsstring" where
  "trim s = rev (dropWhile isWhiteSpace (rev (dropWhile isWhiteSpace s)))"

definition startsWith :: "jsstring \<Rightarrow> jsstring \<Rightarrow> bool" where
  \<comment> \<open>\<open>s.startsWith(p)\<close>\<close>
  "startsWith s p \<longleftrightarrow> take (length p) s = p"

definition truthy :: "jsstring option \<Rightarrow> bool" where
  \<comment> \<open>truthiness of a value of type \<open>string | null\<close>: null and the empty string are falsy\<close>
  "truthy v \<longleftrightarrow> (case v of None \<Rightarrow> False | Some s \<Rightarrow> s \<noteq> [])"

fun natToDigits :: "nat \<Rightarrow> jsstring" where
  "natToDigits n = (if n < 10 then [0x30 + of_nat n]
                    else natToDigits (n div 10) @ [0x30 + of_nat (n mod 10)])"

definition numberToString :: "int option \<Rightarrow> jsstring" where
  \<comment> \<open>\<open>String(n)\<close> for an integral Number; \<open>None\<close> is NaN\<close>
  "numberToString v =
     (case v of None \<Rightarrow> ascii ''NaN''
      | Some i \<Rightarrow> if i < 0 then 0x2D # natToDigits (nat (- i)) else natToDigits (nat i))"

definition padStart2 :: "jsstring \<Rightarrow> jsstring" where
  \<comment> \<open>\<open>s.padStart(2, '0')\<close>\<close>
  "padStart2 s = replicate (2 - length s) 0x30 @ s"

section \<open>TextSanitizer: the parse route's validation and preprocessing\<close>

definition MIN_LENGTH :: nat where "MIN_LENGTH = 2"
definition MAX_LENGTH :: nat where "MAX_LENGTH = 500"
definition TITLE_MIN :: nat where "TITLE_MIN = 2"
definition TITLE_MAX :: nat where "TITLE_MAX = 100"

definition isEmojiCodePoint :: "nat \<Rightarrow> bool" where
  \<comment> \<open>the character class of \<open>EMOJI_REGEX\<close>, on code points\<close>
  "isEmojiCodePoint cp \<longleftrightarrow>
     (0x1F300 \<le> cp \<and> cp \<le> 0x1F9FF) \<or> (0x2600 \<le> cp \<and> cp \<le> 0x26FF) \<or>
     (0x2700 \<le> cp \<and> cp \<le> 0x27BF) \<or> (0xFE00 \<le> cp \<and> cp \<le> 0xFEFF) \<or>
     (0x1F000 \<le> cp \<and> cp \<le> 0x1FFFF)"

definition isHighSurrogate :: "16 word \<Rightarrow> bool" where
  "isHighSurrogate c \<longleftrightarrow> 0xD800 \<le> c \<and> c \<le> 0xDBFF"

definition isLowSurrogate :: "16 word \<Rightarrow> bool" where
  "isLowSurrogate c \<longleftrightarrow> 0xDC00 \<le> c \<and> c \<le> 0xDFFF"

definition codePoint :: "16 word \<Rightarrow> 16 word \<Rightarrow> nat" where
  "codePoint h l = 0x10000 + (unat h - 0xD800) * 0x400 + (unat l - 0xDC00)"

fun removeEmoji :: "jsstring \<Rightarrow> jsstring" where
  \<comment> \<open>\<open>s.replace(EMOJI_REGEX, '')\<close>: the regex has the flags \<open>g\<close> and \<open>u\<close>\<close>
  "removeEmoji [] = []"
| "removeEmoji [c] = (if isEmojiCodePoint (unat c) then [] else [c])"
| "removeEmoji (h # l # r) =
     (if isHighSurrogate h \<and> isLowSurrogate l
      then (if isEmojiCodePoint (codePoint h l) then removeEmoji r else h # l # removeEmoji r)
      else if isEmojiCodePoint (unat h) then removeEmoji (l # r)
      else h # removeEmoji (l # r))"

definition isDangerous :: "16 word \<Rightarrow> bool" where
  \<comment> \<open>the character class of \<open>DANGEROUS_CHARS_REGEX\<close>: \<open>< > ' " ` ;\<close> and the backslash\<close>
  "isDangerous c \<longleftrightarrow>
     c = 0x3C \<or> c = 0x3E \<or> c = 0x27 \<or> c = 0x22 \<or> c = 0x60 \<or> c = 0x3B \<or> c = 0x5C"

definition RegExp_test :: "(16 word \<Rightarrow> bool) \<Rightarrow> nat \<Rightarrow> jsstring \<Rightarrow> bool \<times> nat" where
  \<comment> \<open>\<open>re.test(s)\<close> for a one-character class with the \<open>g\<close> flag: the search starts at
      \<open>re.lastIndex\<close>; a match leaves \<open>lastIndex\<close> just behind it, a failure resets it to 0.
      The result is the answer and the new \<open>lastIndex\<close>.\<close>
  "RegExp_test cls lastIndex s =
     (if lastIndex > length s then (False, 0)
      else case dropWhile (\<lambda>c. \<not> cls c) (drop lastIndex s) of
             [] \<Rightarrow> (False, 0)
           | _ # _ \<Rightarrow> (True, lastIndex + length (takeWhile (\<lambda>c. \<not> cls c) (drop lastIndex s)) + 1))"

datatype unknown = JString jsstring | JOther
  \<comment> \<open>a request field of type \<open>unknown\<close>: a string, or any other JSON value\<close>

datatype InvalidInput =
    NotAString        \<comment> \<open>"the text format is not valid"\<close>
  | EmptyText         \<comment> \<open>"please enter the task"\<close>
  | TooShort          \<comment> \<open>"enter at least 2 characters"\<close>
  | TooLong           \<comment> \<open>"enter at most 500 characters"\<close>
  | DangerousChars    \<comment> \<open>"special characters that cannot be used are included"\<close>
  | EmojiOnly         \<comment> \<open>"emoji alone cannot be analysed"\<close>

record ValidationResult =
  ok :: bool
  error :: "InvalidInput option"

definition invalid :: "InvalidInput \<Rightarrow> ValidationResult" where
  "invalid e = \<lparr>ok = False, error = Some e\<rparr>"

definition valid :: ValidationResult where
  "valid = \<lparr>ok = True, error = None\<rparr>"

fun validateInput :: "nat \<Rightarrow> unknown \<Rightarrow> ValidationResult \<times> nat" where
  \<comment> \<open>The first argument and the second result are \<open>DANGEROUS_CHARS_REGEX.lastIndex\<close>, the
      one piece of module state the function reads and writes.\<close>
  "validateInput lastIndex JOther = (invalid NotAString, lastIndex)"
| "validateInput lastIndex (JString text) =
     (let trimmed = trim text in
      if length trimmed = 0 then (invalid EmptyText, lastIndex)
      else if length trimmed < MIN_LENGTH then (invalid TooShort, lastIndex)
      else if length text > MAX_LENGTH then (invalid TooLong, lastIndex)
      else case RegExp_test isDangerous lastIndex trimmed of
             (True, lastIndex') \<Rightarrow> (invalid DangerousChars, lastIndex')
           | (False, lastIndex') \<Rightarrow>
               (let withoutEmoji = trim (removeEmoji trimmed) in
                if length withoutEmoji = 0 then (invalid EmojiOnly, lastIndex')
                else (valid, lastIndex')))"

fun collapse :: "bool \<Rightarrow> jsstring \<Rightarrow> jsstring" where
  \<comment> \<open>\<open>s.replace(/\s+/g, ' ')\<close>; the flag says that the previous code unit was white space\<close>
  "collapse inRun [] = []"
| "collapse inRun (c # cs) =
     (if isWhiteSpace c then (if inRun then collapse True cs else 0x20 # collapse True cs)
      else c # collapse False cs)"

definition toHalfWidth :: "jsstring \<Rightarrow> jsstring" where
  \<comment> \<open>every code unit \<open>ch\<close> from U+FF01 to U+FF5E becomes
      \<open>String.fromCharCode(ch.charCodeAt(0) - 0xfee0)\<close>\<close>
  "toHalfWidth s = map (\<lambda>ch. if 0xFF01 \<le> ch \<and> ch \<le> 0xFF5E then ch - 0xFEE0 else ch) s"

definition preprocessText :: "jsstring \<Rightarrow> jsstring" where
  \<comment> \<open>\<open>replace\<close> with a global regex starts at index 0 and leaves \<open>lastIndex\<close> at 0\<close>
  "preprocessText text =
     (let result = trim text;
          result = collapse False result;
          result = trim (removeEmoji result);
          result = filter (\<lambda>c. \<not> isDangerous c) result;
          result = toHalfWidth result
      in trim result)"

section \<open>Dates\<close>

text \<open>
  A time value is a number of milliseconds since the epoch, in UTC; a \<open>Date\<close> object holds a
  time value or NaN (an invalid date, \<open>None\<close> here). The functions below are the abstract
  operations of ECMAScript (section "Date Objects"), under their names there. The time zone
  of the process is a parameter \<open>zone\<close>: its offset from UTC may depend on the instant, as
  it does with daylight saving. Time values range over all integers (the limit of 8.64e15 ms
  of \<open>TimeClip\<close> is not modelled).
\<close>

type_synonym Date = "int option"

definition msPerDay :: int where
  "msPerDay = 86400000"

definition Day :: "int \<Rightarrow> int" where
  "Day t = t div msPerDay"

definition TimeWithinDay :: "int \<Rightarrow> int" where
  "TimeWithinDay t = t mod msPerDay"

definition DaysInYear :: "int \<Rightarrow> int" where
  "DaysInYear y = (if y mod 4 \<noteq> 0 then 365 else if y mod 100 \<noteq> 0 then 366
                   else if y mod 400 \<noteq> 0 then 365 else 366)"

definition DayFromYear :: "int \<Rightarrow> int" where
  "DayFromYear y =
     365 * (y - 1970) + (y - 1969) div 4 - (y - 1901) div 100 + (y - 1601) div 400"

definition YearFromTime :: "int \<Rightarrow> int" where
  \<comment> \<open>the largest \<open>y\<close> with \<open>DayFromYear y \<le> Day t\<close>; it is one of the three years around
      the estimate \<open>1970 + 400 * Day t div 146097\<close> (lemma \<open>YearFromTime_bounds\<close>)\<close>
  "YearFromTime t =
     (let d = Day t; y = 1970 + (400 * d) div 146097
      in if DayFromYear (y + 1) \<le> d then y + 1 else if DayFromYear y \<le> d then y else y - 1)"

definition leapDays :: "int \<Rightarrow> int" where
  \<comment> \<open>\<open>InLeapYear\<close>, for the year itself: 1 in a leap year, else 0\<close>
  "leapDays y = (if DaysInYear y = 366 then 1 else 0)"

definition InLeapYear :: "int \<Rightarrow> int" where
  "InLeapYear t = leapDays (YearFromTime t)"

definition DayWithinYear :: "int \<Rightarrow> int" where
  "DayWithinYear t = Day t - DayFromYear (YearFromTime t)"

definition monthStart :: "int \<Rightarrow> int \<Rightarrow> int" where
  \<comment> \<open>the day within the year on which month \<open>m\<close> (0 to 11) begins\<close>
  "monthStart m l =
     (if m = 0 then 0 else if m = 1 then 31 else if m = 2 then 59 + l
      else if m = 3 then 90 + l else if m = 4 then 120 + l else if m = 5 then 151 + l
      else if m = 6 then 181 + l else if m = 7 then 212 + l else if m = 8 then 243 + l
      else if m = 9 then 273 + l else if m = 10 then 304 + l else 334 + l)"

definition MonthFromTime :: "int \<Rightarrow> int" where
  "MonthFromTime t =
     (let d = DayWithinYear t; l = InLeapYear t
      in if d < 31 then 0 else if d < 59 + l then 1 else if d < 90 + l then 2
         else if d < 120 + l then 3 else if d < 151 + l then 4 else if d < 181 + l then 5
         else if d < 212 + l then 6 else if d < 243 + l then 7 else if d < 273 + l then 8
         else if d < 304 + l then 9 else if d < 334 + l then 10 else 11)"

definition DateFromTime :: "int \<Rightarrow> int" where
  "DateFromTime t = DayWithinYear t - monthStart (MonthFromTime t) (InLeapYear t) + 1"

definition WeekDay :: "int \<Rightarrow> int" where
  "WeekDay t = (Day t + 4) mod 7"

definition HourFromTime :: "int \<Rightarrow> int" where
  "HourFromTime t = (t div 3600000) mod 24"

definition MinFromTime :: "int \<Rightarrow> int" where
  "MinFromTime t = (t div 60000) mod 60"

definition MakeTime :: "int \<Rightarrow> int \<Rightarrow> int \<Rightarrow> int \<Rightarrow> int" where
  "MakeTime h m s ms = h * 3600000 + m * 60000 + s * 1000 + ms"

definition MakeDay :: "int \<Rightarrow> int \<Rightarrow> int \<Rightarrow> int" where
  \<comment> \<open>the day number of the first of the month, plus \<open>dt - 1\<close>: a date outside the month
      runs into the neighbouring months\<close>
  "MakeDay year month dt =
     (let ym = year + month div 12; mn = month mod 12
      in DayFromYear ym + monthStart mn (leapDays ym) + dt - 1)"

definition MakeDate :: "int \<Rightarrow> int \<Rightarrow> int" where
  "MakeDate day time = day * msPerDay + time"

record Zone =
  offsetAt :: "int \<Rightarrow> int"
    \<comment> \<open>\<open>LocalTZA(t, true)\<close>: the offset of local time from UTC at the instant \<open>t\<close>\<close>
  offsetOfLocal :: "int \<Rightarrow> int"
    \<comment> \<open>\<open>LocalTZA(t, false)\<close>: the offset by which the local time value \<open>t\<close> is read\<close>

definition LocalTime :: "Zone \<Rightarrow> int \<Rightarrow> int" where
  "LocalTime zone t = t + offsetAt zone t"

definition UTC :: "Zone \<Rightarrow> int \<Rightarrow> int" where
  "UTC zone t = t - offsetOfLocal zone t"

definition fixedZone :: "int \<Rightarrow> Zone" where
  \<comment> \<open>a time zone without daylight saving or other transitions\<close>
  "fixedZone off = \<lparr>offsetAt = (\<lambda>t. off), offsetOfLocal = (\<lambda>t. off)\<rparr>"

text \<open>The methods of \<open>Date.prototype\<close> the routes call. A getter of an invalid date is NaN.\<close>

definition getFullYear :: "Zone \<Rightarrow> Date \<Rightarrow> int option" where
  "getFullYear zone d = map_option (\<lambda>t. YearFromTime (LocalTime zone t)) d"

definition getMonth :: "Zone \<Rightarrow> Date \<Rightarrow> int option" where
  "getMonth zone d = map_option (\<lambda>t. MonthFromTime (LocalTime zone t)) d"

definition getDate :: "Zone \<Rightarrow> Date \<Rightarrow> int option" where
  "getDate zone d = map_option (\<lambda>t. DateFromTime (LocalTime zone t)) d"

definition getDay :: "Zone \<Rightarrow> Date \<Rightarrow> int option" where
  "getDay zone d = map_option (\<lambda>t. WeekDay (LocalTime zone t)) d"

definition getHours :: "Zone \<Rightarrow> Date \<Rightarrow> int option" where
  "getHours zone d = map_option (\<lambda>t. HourFromTime (LocalTime zone t)) d"

definition getMinutes :: "Zone \<Rightarrow> Date \<Rightarrow> int option" where
  "getMinutes zone d = map_option (\<lambda>t. MinFromTime (LocalTime zone t)) d"

definition setDate :: "Zone \<Rightarrow> Date \<Rightarrow> int option \<Rightarrow> Date" where
  "setDate zone d dt =
     (case (d, dt) of
        (Some t, Some n) \<Rightarrow>
          (let lt = LocalTime zone t
           in Some (UTC zone (MakeDate (MakeDay (YearFromTime lt) (MonthFromTime lt) n)
                                      (TimeWithinDay lt))))
      | _ \<Rightarrow> None)"

definition setHours :: "Zone \<Rightarrow> Date \<Rightarrow> int \<Rightarrow> int \<Rightarrow> int \<Rightarrow> int \<Rightarrow> Date" where
  "setHours zone d h m s ms =
     (case d of
        Some t \<Rightarrow> Some (UTC zone (MakeDate (Day (LocalTime zone t)) (MakeTime h m s ms)))
      | None \<Rightarrow> None)"

definition setFullYear :: "Zone \<Rightarrow> Date \<Rightarrow> int option \<Rightarrow> Date" where
  \<comment> \<open>on an invalid date \<open>setFullYear\<close> starts from the time value 0\<close>
  "setFullYear zone d y =
     (case y of
        None \<Rightarrow> None
      | Some yv \<Rightarrow>
          (let lt = (case d of None \<Rightarrow> 0 | Some t \<Rightarrow> LocalTime zone t)
           in Some (UTC zone (MakeDate (MakeDay yv (MonthFromTime lt) (DateFromTime lt))
                                      (TimeWithinDay lt)))))"

definition Date_lt :: "Date \<Rightarrow> Date \<Rightarrow> bool" where
  \<comment> \<open>\<open>a < b\<close> on dates compares the time values; a comparison with NaN is false\<close>
  "Date_lt a b = (case (a, b) of (Some x, Some y) \<Rightarrow> x < y | _ \<Rightarrow> False)"

definition Date_le :: "Date \<Rightarrow> Date \<Rightarrow> bool" where
  "Date_le a b = (case (a, b) of (Some x, Some y) \<Rightarrow> x \<le> y | _ \<Rightarrow> False)"

definition numberAdd :: "int option \<Rightarrow> int \<Rightarrow> int option" where
  \<comment> \<open>\<open>n + k\<close> where \<open>n\<close> may be NaN\<close>
  "numberAdd n k = map_option (\<lambda>v. v + k) n"

subsection \<open>A parser for the ECMAScript date-time string format\<close>

text \<open>
  \<open>new Date(s)\<close> accepts the format \<open>YYYY-MM-DDTHH:mm:ss.sssZ\<close> (time, seconds,
  milliseconds and offset optional; a date alone is UTC, a date with a time and no offset is
  local time) and may accept other formats in an implementation-defined way. The route
  functions below take the parser as a parameter, so the theorems about them hold for every
  parser. \<open>Date_parse\<close> is the standard format with a four-digit year as V8 (Node.js) reads
  it, for the examples: a day of the month up to 31 is accepted and runs into the next month
  where the month is shorter, the hour 24 is accepted with minutes and seconds zero, and a
  fraction of a second may have any number of digits, of which the first three count; \<open>T\<close>
  and \<open>Z\<close> may be in lower case, and an offset may be written without its colon. The other
  forms V8 accepts (a signed six-digit year, a year or a year and a month alone, the forms of
  its legacy parser) are invalid here.
\<close>

definition isDigit :: "16 word \<Rightarrow> bool" where
  "isDigit c \<longleftrightarrow> 0x30 \<le> c \<and> c \<le> 0x39"

definition digitVal :: "16 word \<Rightarrow> int" where
  "digitVal c = uint c - 48"

definition digits2 :: "jsstring \<Rightarrow> (int \<times> jsstring) option" where
  "digits2 s = (case s of
      a # b # r \<Rightarrow> if isDigit a \<and> isDigit b then Some (digitVal a * 10 + digitVal b, r) else None
    | _ \<Rightarrow> None)"

definition digits4 :: "jsstring \<Rightarrow> (int \<times> jsstring) option" where
  "digits4 s = do {
     (hi, r) \<leftarrow> digits2 s;
     (lo, r') \<leftarrow> digits2 r;
     Some (hi * 100 + lo, r') }"

definition expect :: "16 word \<Rightarrow> jsstring \<Rightarrow> jsstring option" where
  "expect c s = (case s of x # r \<Rightarrow> if x = c then Some r else None | [] \<Rightarrow> None)"

definition DaysInMonth :: "int \<Rightarrow> int \<Rightarrow> int" where
  \<comment> \<open>month 1 to 12\<close>
  "DaysInMonth y m =
     (if m = 2 then 28 + leapDays y else if m = 4 \<or> m = 6 \<or> m = 9 \<or> m = 11 then 30 else 31)"

definition fractionMs :: "jsstring \<Rightarrow> (int \<times> jsstring) option" where
  \<comment> \<open>the digits behind the point, one at least: the first three are the milliseconds\<close>
  "fractionMs s =
     (let ds = takeWhile isDigit s
      in if ds = [] then None
         else Some (foldl (\<lambda>a c. a * 10 + digitVal c) 0 (take 3 (ds @ [0x30, 0x30])),
                    dropWhile isDigit s))"

definition parseSeconds :: "jsstring \<Rightarrow> (int \<times> int \<times> jsstring) option" where
  \<comment> \<open>the optional \<open>:ss\<close> and, behind it, the optional fraction\<close>
  "parseSeconds s =
     (case expect 0x3A s of
        None \<Rightarrow> Some (0, 0, s)
      | Some r \<Rightarrow> do {
          (sec, r1) \<leftarrow> digits2 r;
          (case expect 0x2E r1 of
             None \<Rightarrow> Some (sec, 0, r1)
           | Some r2 \<Rightarrow> do { (ms, r3) \<leftarrow> fractionMs r2; Some (sec, ms, r3) }) })"

definition parseOffset :: "jsstring \<Rightarrow> int option option" where
  \<comment> \<open>the offset of the written time from UTC: none (\<open>Some None\<close>: the time is local),
      \<open>Z\<close>, or a sign and \<open>HH:mm\<close> or \<open>HHmm\<close>\<close>
  "parseOffset s =
     (if s = [] then Some None
      else if s = [0x5A] \<or> s = [0x7A] then Some (Some 0)
      else do {
        sign \<leftarrow> (if hd s = 0x2B then Some 1 else if hd s = 0x2D then Some (- 1) else None);
        (h, r1) \<leftarrow> digits2 (tl s);
        (m, r3) \<leftarrow> digits2 (case expect 0x3A r1 of None \<Rightarrow> r1 | Some r2 \<Rightarrow> r2);
        if r3 = [] \<and> h \<le> 23 \<and> m \<le> 59
        then Some (Some (sign * (h * 3600000 + m * 60000))) else None })"

definition Date_parse :: "Zone \<Rightarrow> jsstring \<Rightarrow> Date" where
  "Date_parse zone s = do {
     (y, r1) \<leftarrow> digits4 s;
     r2 \<leftarrow> expect 0x2D r1;
     (mo, r3) \<leftarrow> digits2 r2;
     r4 \<leftarrow> expect 0x2D r3;
     (d, r5) \<leftarrow> digits2 r4;
     if mo < 1 \<or> 12 < mo \<or> d < 1 \<or> 31 < d then None
     else if r5 = [] then Some (MakeDate (MakeDay y (mo - 1) d) 0)
     else do {
       r6 \<leftarrow> (case expect 0x54 r5 of None \<Rightarrow> expect 0x74 r5 | Some r \<Rightarrow> Some r);
       (h, r7) \<leftarrow> digits2 r6;
       r8 \<leftarrow> expect 0x3A r7;
       (mi, r9) \<leftarrow> digits2 r8;
       (sec, ms, r10) \<leftarrow> parseSeconds r9;
       off \<leftarrow> parseOffset r10;
       if 24 < h \<or> 59 < mi \<or> 59 < sec \<or> (h = 24 \<and> 0 < mi + sec + ms)
       then None
       else (let tv = MakeDate (MakeDay y (mo - 1) d) (MakeTime h mi sec ms)
             in Some (case off of None \<Rightarrow> UTC zone tv | Some ahead \<Rightarrow> tv - ahead)) } }"

section \<open>ResultPostprocessor: the parse route's postprocessing\<close>

record ParsedTodo =
  \<comment> \<open>the object the generative model returns (\<open>parsedTodoSchema\<close>)\<close>
  raw_title :: jsstring
  raw_due_at :: "jsstring option"
  raw_priority :: jsstring
  raw_category :: "jsstring option"
  raw_description :: "jsstring option"

record ParsedTodoResult =
  res_title :: jsstring
  res_due_at :: "jsstring option"
  res_priority :: jsstring
  res_category :: "jsstring option"
  res_description :: "jsstring option"

definition placeholderTitle :: jsstring where
  \<comment> \<open>the literal of the source, "new task" in Korean: five code units\<close>
  "placeholderTitle = [0xC0C8, 0x20, 0xD560, 0x20, 0xC77C]"

definition ellipsis :: "16 word" where
  \<comment> \<open>U+2026, the horizontal ellipsis\<close>
  "ellipsis = 0x2026"

definition dropLastWord :: "jsstring \<Rightarrow> jsstring" where
  \<comment> \<open>\<open>s.replace(/\s+\S*$/, '')\<close>: the leftmost match begins at the first code unit of the
      last run of white space and reaches the end of the string; a string without white
      space has no match and stays as it is\<close>
  "dropLastWord s =
     (if \<exists>c \<in> set s. isWhiteSpace c
      then rev (dropWhile isWhiteSpace (dropWhile (\<lambda>c. \<not> isWhiteSpace c) (rev s)))
      else s)"

definition postprocessTitle :: "jsstring \<Rightarrow> jsstring" where
  "postprocessTitle rawTitle =
     (let title = (if trim rawTitle = [] then placeholderTitle else trim rawTitle)
      in if length title < TITLE_MIN then placeholderTitle
         else if length title > TITLE_MAX
           then trim (dropLastWord (take TITLE_MAX title)) @ [ellipsis]
         else title)"

definition formatLocal :: "Zone \<Rightarrow> Date \<Rightarrow> jsstring" where
  \<comment> \<open>the template string of the source: the year as it prints, the other fields padded\<close>
  "formatLocal zone parsed =
     numberToString (getFullYear zone parsed) @ [0x2D] @
     padStart2 (numberToString (numberAdd (getMonth zone parsed) 1)) @ [0x2D] @
     padStart2 (numberToString (getDate zone parsed)) @ [0x54] @
     padStart2 (numberToString (getHours zone parsed)) @ [0x3A] @
     padStart2 (numberToString (getMinutes zone parsed))"

definition oneYearLater :: "Zone \<Rightarrow> Date \<Rightarrow> Date" where
  \<comment> \<open>\<open>const oneYearLater = new Date(now); oneYearLater.setFullYear(now.getFullYear() + 1)\<close>\<close>
  "oneYearLater zone now = setFullYear zone now (numberAdd (getFullYear zone now) 1)"

definition postprocessDueAt ::
  "(jsstring \<Rightarrow> Date) \<Rightarrow> Zone \<Rightarrow> jsstring option \<Rightarrow> Date \<Rightarrow> jsstring option" where
  "postprocessDueAt parse zone rawDue now =
     (case rawDue of
        None \<Rightarrow> None
      | Some s \<Rightarrow>
          if s = [] then None
          else (let parsed = parse s in
                if parsed = None then None
                else (let parsed = (if Date_lt (oneYearLater zone now) parsed
                                    then setFullYear zone parsed (getFullYear zone now)
                                    else parsed)
                      in Some (formatLocal zone parsed))))"

definition trimOrNull :: "jsstring option \<Rightarrow> jsstring option" where
  \<comment> \<open>\<open>v?.trim() || null\<close>\<close>
  "trimOrNull v = (case v of None \<Rightarrow> None | Some s \<Rightarrow> if trim s = [] then None else Some (trim s))"

definition postprocess :: "(jsstring \<Rightarrow> Date) \<Rightarrow> Zone \<Rightarrow> ParsedTodo \<Rightarrow> jsstring \<Rightarrow> ParsedTodoResult" where
  "postprocess parse zone raw nowStr =
     (let now = parse nowStr in
      \<lparr>res_title = postprocessTitle (raw_title raw),
       res_due_at = postprocessDueAt parse zone (raw_due_at raw) now,
       res_priority =
         (if raw_priority raw \<in> {ascii ''high'', ascii ''medium'', ascii ''low''}
          then raw_priority raw else ascii ''medium''),
       res_category = trimOrNull (raw_category raw),
       res_description = trimOrNull (raw_description raw)\<rparr>)"

section \<open>The parse route\<close>

record ParseTodoRequest =
  req_text :: unknown
  req_currentLocalDateTime :: "jsstring option"

datatype ParseError =
    Invalid "InvalidInput option"  \<comment> \<open>the message of the failed validation\<close>
  | Meaningless                    \<comment> \<open>"enter something meaningful"\<close>

datatype ParseStep =
    ErrorResponse ParseError nat
      \<comment> \<open>the handler answers with an error payload and this HTTP status\<close>
  | GenerateObject jsstring jsstring
      \<comment> \<open>the handler calls the generative model, with a prompt that embeds this cleaned
          text and this reference time\<close>

definition POST_parse :: "jsstring \<Rightarrow> nat \<Rightarrow> ParseTodoRequest \<Rightarrow> ParseStep \<times> nat" where
  \<comment> \<open>The handler of the parse route as far as the call of the model. \<open>clock\<close> is
      \<open>new Date().toISOString().slice(0, 16)\<close>; the number is
      \<open>DANGEROUS_CHARS_REGEX.lastIndex\<close>, which lives as long as the module
      (\<open>preprocessText\<close> leaves it at 0).\<close>
  "POST_parse clock lastIndex body =
     (case validateInput lastIndex (req_text body) of
        (validation, lastIndex') \<Rightarrow>
          if \<not> ok validation then (ErrorResponse (Invalid (error validation)) 400, lastIndex')
          else
            (let cleanedText =
                   preprocessText (case req_text body of JString t \<Rightarrow> t | JOther \<Rightarrow> []);
                 nowStr = (case req_currentLocalDateTime body of
                             None \<Rightarrow> clock
                           | Some s \<Rightarrow> if s = [] then clock else s)
             in if length cleanedText < MIN_LENGTH then (ErrorResponse Meaningless 400, 0)
                else (GenerateObject cleanedText nowStr, 0)))"

section \<open>Numbers\<close>

text \<open>
  A Number is an IEEE 754 double. The counts of the statistics are integers far below
  \<open>2^53\<close>, which a double holds exactly, and so are their sums and differences: they are
  integers here. The one computation that leaves the integers is \<open>rate\<close>, a quotient and a
  product, each of them rounded to the nearest double, a tie going to the even significand.
  \<open>fp64 x\<close> is the double nearest to the real number \<open>x\<close>: 53 significant bits, or fewer
  below \<open>2^-1022\<close>, where the doubles are \<open>2^-1074\<close> apart. From \<open>2^1024\<close> on the program
  has \<open>Infinity\<close>, which is not modelled; the numbers of \<open>rate\<close> are at most 101.
\<close>

fun ilog2 :: "nat \<Rightarrow> nat" where
  \<comment> \<open>the position of the leading bit of a positive number\<close>
  "ilog2 n = (if n < 2 then 0 else Suc (ilog2 (n div 2)))"

definition pow2 :: "int \<Rightarrow> real" where
  "pow2 e = (if 0 \<le> e then 2 ^ nat e else 1 / 2 ^ nat (- e))"

definition floorLog2 :: "real \<Rightarrow> int" where
  \<comment> \<open>the exponent \<open>k\<close> of a positive number: \<open>2^k \<le> x < 2^(k+1)\<close>\<close>
  "floorLog2 x = (if 1 \<le> x then int (ilog2 (nat \<lfloor>x\<rfloor>))
                  else - int (ilog2 (nat (\<lceil>1 / x\<rceil> - 1))) - 1)"

definition roundTiesToEven :: "real \<Rightarrow> int" where
  "roundTiesToEven y =
     (let f = \<lfloor>y\<rfloor>; r = y - of_int f
      in if r < 1 / 2 then f else if 1 / 2 < r then f + 1 else if even f then f else f + 1)"

definition fp64 :: "real \<Rightarrow> real" where
  "fp64 x =
     (if x = 0 then 0
      else (let e = max (floorLog2 \<bar>x\<bar> - 52) (- 1074)
            in sgn x * of_int (roundTiesToEven (\<bar>x\<bar> / pow2 e)) * pow2 e))"

definition Math_round :: "real \<Rightarrow> int" where
  \<comment> \<open>\<open>Math.round\<close> of a double: to the nearest integer, a half upwards\<close>
  "Math_round x = \<lfloor>x + 1 / 2\<rfloor>"

section \<open>StatsAggregator: the summarize route's statistics\<close>

datatype Priority = High | Medium | Low

record TodoSummaryInput =
  title :: jsstring
  completed :: bool
  due_at :: "jsstring option"
  priority :: Priority
  category :: "jsstring option"
  created_at :: jsstring

record PriorityCompletionStat =
  pc_total :: int
  pc_completed :: int
  pc_rate :: int

record CategoryStat =
  cc_total :: int
  cc_completed :: int
  cc_overdue :: int

record TimeSlotDist =
  morning :: int
  afternoon :: int
  evening :: int
  night :: int

datatype Tally =
    Count int
  | Text
      \<comment> \<open>a property that holds a string: what \<open>(f || 0) + 1\<close> is when \<open>f\<close> is a function
          or an object\<close>

record PeriodStats =
  ps_now :: Date
  ps_todayStr :: jsstring
  ps_weekMonday :: Date
  ps_weekSunday :: Date
  ps_total :: int
  ps_completed :: int
  ps_inProgress :: int
  ps_overdue :: int
  ps_completionRate :: int
  ps_todayTasks :: "TodoSummaryInput list"
  ps_weekTasks :: "TodoSummaryInput list"
  ps_completedThisWeek :: int
  ps_priorityCompletion :: "Priority \<Rightarrow> PriorityCompletionStat"
  ps_categoryCompletion :: "jsstring \<rightharpoonup> CategoryStat"
  ps_deadlineAdherenceRate :: int
  ps_timeSlotDist :: TimeSlotDist
  ps_dayOfWeekDist :: "int list"
  ps_overdueByCategory :: "jsstring \<rightharpoonup> Tally"
  ps_overdueByPriority :: "Priority \<rightharpoonup> int"

definition rate :: "int \<Rightarrow> int \<Rightarrow> int" where
  \<comment> \<open>\<open>total > 0 ? Math.round((completed / total) * 100) : 0\<close>: the quotient is rounded to
      a double, and so is its product with 100\<close>
  "rate completedCount totalCount =
     (if totalCount > 0
      then Math_round (fp64 (fp64 (of_int completedCount / of_int totalCount) * 100)) else 0)"

definition dueBefore :: "(jsstring \<Rightarrow> Date) \<Rightarrow> Date \<Rightarrow> TodoSummaryInput \<Rightarrow> bool" where
  \<comment> \<open>\<open>!t.completed && t.due_at && new Date(t.due_at) < now\<close>, which the source writes
      out three times: for the total, for the categories and for the two breakdowns\<close>
  "dueBefore parse now t \<longleftrightarrow>
     \<not> completed t \<and> truthy (due_at t) \<and>
     (case due_at t of None \<Rightarrow> False | Some s \<Rightarrow> Date_lt (parse s) now)"

definition dueWithin :: "(jsstring \<Rightarrow> Date) \<Rightarrow> Date \<Rightarrow> Date \<Rightarrow> TodoSummaryInput \<Rightarrow> bool" where
  \<comment> \<open>\<open>t.due_at && new Date(t.due_at) >= weekMonday && new Date(t.due_at) <= weekSunday\<close>\<close>
  "dueWithin parse weekMonday weekSunday t \<longleftrightarrow>
     truthy (due_at t) \<and>
     (case due_at t of None \<Rightarrow> False
      | Some s \<Rightarrow> Date_le weekMonday (parse s) \<and> Date_le (parse s) weekSunday)"

definition uncategorized :: jsstring where
  \<comment> \<open>the literal of the source, "unclassified" in Korean: three code units\<close>
  "uncategorized = [0xBBF8, 0xBD84, 0xB958]"

definition categoryKey :: "TodoSummaryInput \<Rightarrow> jsstring" where
  \<comment> \<open>\<open>t.category || uncategorized\<close>\<close>
  "categoryKey t = (case category t of None \<Rightarrow> uncategorized
                    | Some c \<Rightarrow> if c = [] then uncategorized else c)"

text \<open>
  The two category tables are objects made by \<open>{}\<close>, so a lookup of a key they do not own
  goes on to \<open>Object.prototype\<close>. The names below are the properties found there: functions,
  and under \<open>__proto__\<close> the prototype itself. All of them are truthy.
\<close>

definition inheritedFunctions :: "jsstring list" where
  "inheritedFunctions = map ascii
     [''constructor'', ''hasOwnProperty'', ''isPrototypeOf'', ''propertyIsEnumerable'',
      ''toLocaleString'', ''toString'', ''valueOf'', ''__defineGetter__'',
      ''__defineSetter__'', ''__lookupGetter__'', ''__lookupSetter__'']"

definition inheritedKeys :: "jsstring list" where
  "inheritedKeys = ascii ''__proto__'' # inheritedFunctions"

definition priorityStep ::
  "(Priority \<Rightarrow> PriorityCompletionStat) \<Rightarrow> TodoSummaryInput \<Rightarrow> Priority \<Rightarrow> PriorityCompletionStat" where
  "priorityStep pc t =
     (let p = priority t;
          e = pc p;
          e = e\<lparr>pc_total := pc_total e + 1\<rparr>;
          e = (if completed t then e\<lparr>pc_completed := pc_completed e + 1\<rparr> else e)
      in pc(p := e))"

definition categoryStep ::
  "(jsstring \<Rightarrow> Date) \<Rightarrow> Date \<Rightarrow> (jsstring \<rightharpoonup> CategoryStat) \<Rightarrow> TodoSummaryInput
     \<Rightarrow> (jsstring \<rightharpoonup> CategoryStat)" where
  \<comment> \<open>Under an inherited key \<open>categoryCompletion[cat]\<close> is the inherited value, which is
      truthy: no entry is made, and the increments go to properties of that value.\<close>
  "categoryStep parse now cc t =
     (let cat = categoryKey t in
      if cc cat = None \<and> cat \<in> set inheritedKeys then cc
      else (let e = (case cc cat of None \<Rightarrow> \<lparr>cc_total = 0, cc_completed = 0, cc_overdue = 0\<rparr>
                     | Some e \<Rightarrow> e);
                e = e\<lparr>cc_total := cc_total e + 1\<rparr>;
                e = (if completed t then e\<lparr>cc_completed := cc_completed e + 1\<rparr> else e);
                e = (if dueBefore parse now t then e\<lparr>cc_overdue := cc_overdue e + 1\<rparr> else e)
            in cc(cat \<mapsto> e)))"

definition timeSlotStep ::
  "(jsstring \<Rightarrow> Date) \<Rightarrow> Zone \<Rightarrow> TimeSlotDist \<Rightarrow> TodoSummaryInput \<Rightarrow> TimeSlotDist" where
  \<comment> \<open>the hour of an invalid date is NaN, every comparison with it is false, and the last
      branch counts it\<close>
  "timeSlotStep parse zone ts t =
     (case due_at t of
        None \<Rightarrow> ts
      | Some s \<Rightarrow>
          if s = [] then ts
          else (case getHours zone (parse s) of
                  None \<Rightarrow> ts\<lparr>night := night ts + 1\<rparr>
                | Some h \<Rightarrow>
                    if h < 12 then ts\<lparr>morning := morning ts + 1\<rparr>
                    else if h < 17 then ts\<lparr>afternoon := afternoon ts + 1\<rparr>
                    else if h < 21 then ts\<lparr>evening := evening ts + 1\<rparr>
                    else ts\<lparr>night := night ts + 1\<rparr>))"

definition dayOfWeekStep ::
  "(jsstring \<Rightarrow> Date) \<Rightarrow> Zone \<Rightarrow> int list \<Rightarrow> TodoSummaryInput \<Rightarrow> int list" where
  \<comment> \<open>\<open>dayOfWeekDist[i]++\<close>: for an invalid date the index is NaN and the statement writes a
      property named "NaN", not an element; an index from 0 to 6 is an element\<close>
  "dayOfWeekStep parse zone counts t =
     (case due_at t of
        None \<Rightarrow> counts
      | Some s \<Rightarrow>
          if s = [] then counts
          else (case getDay zone (parse s) of
                  None \<Rightarrow> counts
                | Some i \<Rightarrow>
                    if 0 \<le> i \<and> nat i < length counts
                    then counts[nat i := counts ! nat i + 1] else counts))"

definition tallyStep :: "('k \<rightharpoonup> int) \<Rightarrow> 'k \<Rightarrow> ('k \<rightharpoonup> int)" where
  \<comment> \<open>\<open>m[k] = (m[k] || 0) + 1\<close> for keys that are not inherited\<close>
  "tallyStep m k = m(k \<mapsto> (case m k of None \<Rightarrow> 1 | Some n \<Rightarrow> if n = 0 then 1 else n + 1))"

definition overdueCategoryStep :: "(jsstring \<rightharpoonup> Tally) \<Rightarrow> TodoSummaryInput \<Rightarrow> (jsstring \<rightharpoonup> Tally)" where
  \<comment> \<open>\<open>overdueByCategory[cat] = (overdueByCategory[cat] || 0) + 1\<close>. Under an inherited
      function the sum is a string, which the assignment stores; under \<open>__proto__\<close> the
      assignment of a string does nothing.\<close>
  "overdueCategoryStep m t =
     (let cat = categoryKey t in
      if cat = ascii ''__proto__'' then m
      else case m cat of
             Some (Count n) \<Rightarrow> m(cat \<mapsto> Count (if n = 0 then 1 else n + 1))
           | Some Text \<Rightarrow> m(cat \<mapsto> Text)
           | None \<Rightarrow> if cat \<in> set inheritedFunctions then m(cat \<mapsto> Text)
                     else m(cat \<mapsto> Count 1))"

definition computeStats ::
  "(jsstring \<Rightarrow> Date) \<Rightarrow> Zone \<Rightarrow> TodoSummaryInput list \<Rightarrow> jsstring \<Rightarrow> PeriodStats" where
  "computeStats parse zone todos nowStr =
     (let now = parse nowStr;
          todayStr = numberToString (getFullYear zone now) @ [0x2D] @
                     padStart2 (numberToString (numberAdd (getMonth zone now) 1)) @ [0x2D] @
                     padStart2 (numberToString (getDate zone now));
          dayOfWeek = getDay zone now;
          weekMonday = setDate zone now
             (case (getDate zone now, dayOfWeek) of
                (Some d, Some w) \<Rightarrow> Some (d - (if w = 0 then 6 else w - 1))
              | _ \<Rightarrow> None);
          weekMonday = setHours zone weekMonday 0 0 0 0;
          weekSunday = setDate zone weekMonday (numberAdd (getDate zone weekMonday) 6);
          weekSunday = setHours zone weekSunday 23 59 59 999;
          todayTasks = filter (\<lambda>t. case due_at t of None \<Rightarrow> False
                                     | Some s \<Rightarrow> startsWith s todayStr) todos;
          weekTasks = filter (dueWithin parse weekMonday weekSunday) todos;
          completedThisWeek =
            int (length (filter (\<lambda>t. completed t \<and> dueWithin parse weekMonday weekSunday t) todos));
          total = int (length todos);
          completed' = int (length (filter completed todos));
          inProgress = total - completed';
          completionRate = rate completed' total;
          overdue = int (length (filter (dueBefore parse now) todos));
          priorityCompletion =
            foldl priorityStep (\<lambda>p. \<lparr>pc_total = 0, pc_completed = 0, pc_rate = 0\<rparr>) todos;
          priorityCompletion =
            (\<lambda>p. (priorityCompletion p)
                   \<lparr>pc_rate := rate (pc_completed (priorityCompletion p))
                                     (pc_total (priorityCompletion p))\<rparr>);
          categoryCompletion = foldl (categoryStep parse now) Map.empty todos;
          withDue = filter (\<lambda>t. truthy (due_at t)) todos;
          completedWithDue = int (length (filter completed withDue));
          deadlineAdherenceRate = rate completedWithDue (int (length withDue));
          timeSlotDist = foldl (timeSlotStep parse zone)
                           \<lparr>morning = 0, afternoon = 0, evening = 0, night = 0\<rparr> todos;
          dayOfWeekDist = foldl (dayOfWeekStep parse zone) (replicate 7 0) todos;
          late = filter (dueBefore parse now) todos;
          overdueByCategory = foldl overdueCategoryStep Map.empty late;
          overdueByPriority = foldl (\<lambda>m t. tallyStep m (priority t)) Map.empty late
      in \<lparr>ps_now = now, ps_todayStr = todayStr,
          ps_weekMonday = weekMonday, ps_weekSunday = weekSunday,
          ps_total = total, ps_completed = completed', ps_inProgress = inProgress,
          ps_overdue = overdue, ps_completionRate = completionRate,
          ps_todayTasks = todayTasks, ps_weekTasks = weekTasks,
          ps_completedThisWeek = completedThisWeek,
          ps_priorityCompletion = priorityCompletion,
          ps_categoryCompletion = categoryCompletion,
          ps_deadlineAdherenceRate = deadlineAdherenceRate,
          ps_timeSlotDist = timeSlotDist, ps_dayOfWeekDist = dayOfWeekDist,
          ps_overdueByCategory = overdueByCategory,
          ps_overdueByPriority = overdueByPriority\<rparr>)"

section \<open>The summarize route\<close>

text \<open>
  The handler reads the body with \<open>request.json()\<close>, takes its properties \<open>todos\<close>,
  \<open>period\<close> and \<open>currentLocalDateTime\<close>, validates them, computes the statistics, builds the
  prompt and calls the model, all of it inside one \<open>try\<close> whose \<open>catch\<close> block answers every
  exception. The model below follows the handler as far as the call of the model. The body
  is JSON of any shape. When an element of \<open>todos\<close> is not an object of the declared type
  \<open>TodoSummaryInput\<close>, or \<open>currentLocalDateTime\<close> is neither a string nor absent, the
  validation is as for any other request; what the handler does after it (some such values
  make \<open>computeStats\<close> throw, others do not) is left open, as the outcome
  \<open>SummarizeUntyped\<close>: the handler calls the model or its \<open>catch\<close> block answers.
\<close>

datatype TodoElement =
    Typed TodoSummaryInput
      \<comment> \<open>an object of the declared type\<close>
  | Untyped
      \<comment> \<open>any other JSON value\<close>

record SummarizeTodosRequest =
  req_todos :: "TodoElement list option"
     \<comment> \<open>\<open>None\<close>: the property is not an array (or is not there)\<close>
  req_period :: unknown
  req_nowStr :: "unknown option"
     \<comment> \<open>\<open>None\<close>: the property is not there\<close>

datatype RequestBody =
    NotJson jsstring
      \<comment> \<open>the body is not JSON: \<open>request.json()\<close> rejects with an error of this message\<close>
  | JsonNull
      \<comment> \<open>the body is \<open>null\<close>, of which no property can be taken\<close>
  | JsonValue SummarizeTodosRequest
      \<comment> \<open>any other JSON value, by its three properties; a value that has none of them, as
          a number or a string, has all three undefined\<close>

datatype SummarizeError =
    BadTodos        \<comment> \<open>"the format of the todo data is not valid"\<close>
  | BadPeriod       \<comment> \<open>"the analysis period is not valid"\<close>
  | NoTodos         \<comment> \<open>"there are no todos to analyse; add a todo first"\<close>
  | TooManyTodos    \<comment> \<open>"more than the most that can be analysed at once (200)"\<close>

datatype CaughtError =
    AuthError       \<comment> \<open>"an authentication error of the AI service occurred"\<close>
  | QuotaError      \<comment> \<open>"the usage of the AI service is exceeded; try again in a while"\<close>
  | AnalysisError   \<comment> \<open>"an error occurred during the AI analysis; try again"\<close>

datatype SummarizeStep =
    SummarizeErrorResponse SummarizeError nat
      \<comment> \<open>the validation answers with an error payload and this HTTP status\<close>
  | SummarizeCaught CaughtError nat
      \<comment> \<open>an exception was thrown, and the \<open>catch\<close> block answers with this payload and
          status\<close>
  | SummarizeGenerate PeriodStats jsstring
      \<comment> \<open>the handler calls the generative model, with a prompt built from these statistics
          and this period\<close>
  | SummarizeUntyped
      \<comment> \<open>the validation has passed, on values that are not of the declared types\<close>

fun String_includes :: "jsstring \<Rightarrow> jsstring \<Rightarrow> bool" where
  \<comment> \<open>\<open>s.includes(p)\<close>: \<open>p\<close> begins \<open>s\<close> or a later part of it\<close>
  "String_includes [] p = (p = [])"
| "String_includes (c # s) p = (take (length p) (c # s) = p \<or> String_includes s p)"

definition catchBlock :: "jsstring \<Rightarrow> SummarizeStep" where
  \<comment> \<open>the \<open>catch\<close> block, by the message of the error it caught\<close>
  "catchBlock message =
     (if String_includes message (ascii ''API_KEY'') \<or>
         String_includes message (ascii ''authentication'') \<or>
         String_includes message (ascii ''API key'')
        then SummarizeCaught AuthError 500
      else if String_includes message (ascii ''quota'') \<or>
         String_includes message (ascii ''RESOURCE_EXHAUSTED'') \<or>
         String_includes message (ascii ''429'')
        then SummarizeCaught QuotaError 429
      else SummarizeCaught AnalysisError 500)"

definition destructureNullMessage :: jsstring where
  \<comment> \<open>the message of the \<open>TypeError\<close> of V8 for \<open>const { todos, ... } = null\<close>\<close>
  "destructureNullMessage =
     ascii ''Cannot destructure property '' @ [0x27] @ ascii ''todos'' @ [0x27] @ ascii '' of '' @
     [0x27] @ ascii ''body'' @ [0x27] @ ascii '' as it is null.''"

definition invalidTimeMessage :: jsstring where
  \<comment> \<open>the message of the \<open>RangeError\<close> of V8 for \<open>toISOString\<close> of an invalid date\<close>
  "invalidTimeMessage = ascii ''Invalid time value''"

definition referenceText :: "jsstring \<Rightarrow> SummarizeTodosRequest \<Rightarrow> jsstring option" where
  \<comment> \<open>\<open>currentLocalDateTime || new Date().toISOString().slice(0, 16)\<close>, the second operand
      being \<open>clock\<close>; \<open>None\<close> when the property is there and not a string\<close>
  "referenceText clock body =
     (case req_nowStr body of
        None \<Rightarrow> Some clock
      | Some (JString s) \<Rightarrow> Some (if s = [] then clock else s)
      | Some JOther \<Rightarrow> None)"

definition typedTodos :: "TodoElement list \<Rightarrow> TodoSummaryInput list option" where
  \<comment> \<open>the elements, when all of them are of the declared type\<close>
  "typedTodos es = those (map (\<lambda>e. case e of Typed t \<Rightarrow> Some t | Untyped \<Rightarrow> None) es)"

definition POST_summarize ::
  "(jsstring \<Rightarrow> Date) \<Rightarrow> Zone \<Rightarrow> jsstring \<Rightarrow> RequestBody \<Rightarrow> SummarizeStep" where
  \<comment> \<open>the handler of the summarize route as far as the call of the model; after the
      validation, \<open>buildStatsBlock\<close> calls \<open>stats.now.toISOString()\<close>, which throws when the
      reference time is not a valid date\<close>
  "POST_summarize parse zone clock request =
     (case request of
        NotJson message \<Rightarrow> catchBlock message
      | JsonNull \<Rightarrow> catchBlock destructureNullMessage
      | JsonValue body \<Rightarrow>
          (case req_todos body of
             None \<Rightarrow> SummarizeErrorResponse BadTodos 400
           | Some todos \<Rightarrow>
               if req_period body \<notin> {JString (ascii ''today''), JString (ascii ''week'')}
                 then SummarizeErrorResponse BadPeriod 400
               else if length todos = 0 then SummarizeErrorResponse NoTodos 400
               else if length todos > 200 then SummarizeErrorResponse TooManyTodos 400
               else (case (typedTodos todos, referenceText clock body) of
                       (Some typed, Some nowStr) \<Rightarrow>
                         (let stats = computeStats parse zone typed nowStr
                          in if ps_now stats = None then catchBlock invalidTimeMessage
                             else SummarizeGenerate stats
                                    (case req_period body of JString p \<Rightarrow> p | JOther \<Rightarrow> []))
                     | _ \<Rightarrow> SummarizeUntyped)))"

section \<open>The claims' own words, and example data\<close>

definition overdueCriterion :: "(jsstring \<Rightarrow> Date) \<Rightarrow> jsstring \<Rightarrow> TodoSummaryInput \<Rightarrow> bool" where
  \<comment> \<open>The specification's criterion, in its words: not completed, a due time that is not
      null, and the due instant strictly before the reference instant.\<close>
  "overdueCriterion parse nowStr t \<longleftrightarrow>
     \<not> completed t \<and> due_at t \<noteq> None \<and>
     (case (Option.bind (due_at t) parse, parse nowStr) of
        (Some due, Some now) \<Rightarrow> due < now
      | _ \<Rightarrow> False)"

definition countIn :: "('a \<Rightarrow> bool) \<Rightarrow> 'a list \<Rightarrow> int" where
  "countIn P xs = int (length (filter P xs))"

definition KST :: Zone where
  \<comment> \<open>Korean standard time: nine hours ahead of UTC, without daylight saving\<close>
  "KST = fixedZone 32400000"

definition mkTodo ::
  "bool \<Rightarrow> string option \<Rightarrow> Priority \<Rightarrow> string option \<Rightarrow> TodoSummaryInput" where
  "mkTodo c d p k =
     \<lparr>title = ascii ''task'', completed = c, due_at = map_option ascii d, priority = p,
      category = map_option ascii k, created_at = ascii ''2026-02-01T00:00:00+00:00''\<rparr>"

definition scenarioA :: "TodoSummaryInput list" where
  \<comment> \<open>ten todos, four of them completed, two of the others due before 2026-02-17T09:00\<close>
  "scenarioA =
     [mkTodo True (Some ''2026-02-16T10:00'') High (Some ''work''),
      mkTodo True None Medium None,
      mkTodo True (Some ''2026-02-17T08:00'') Low (Some ''home''),
      mkTodo True (Some ''2026-02-20T18:00'') High (Some ''work''),
      mkTodo False (Some ''2026-02-16T23:00'') High (Some ''work''),
      mkTodo False (Some ''2026-02-17T08:59'') Medium (Some ''home''),
      mkTodo False (Some ''2026-02-17T09:00'') Medium (Some ''work''),
      mkTodo False (Some ''2026-02-17T21:30'') Low None,
      mkTodo False None Low (Some ''home''),
      mkTodo False (Some ''2026-02-22T12:00'') Medium (Some ''work'')]"

definition slotTotal :: "TimeSlotDist \<Rightarrow> int" where
  "slotTotal ts = morning ts + afternoon ts + evening ts + night ts"

definition dueHour :: "(jsstring \<Rightarrow> Date) \<Rightarrow> Zone \<Rightarrow> TodoSummaryInput \<Rightarrow> int option" where
  \<comment> \<open>the local hour of the due time: \<open>new Date(t.due_at).getHours()\<close>\<close>
  "dueHour parse zone t = (case due_at t of None \<Rightarrow> None | Some s \<Rightarrow> getHours zone (parse s))"

definition dueWeekDay :: "(jsstring \<Rightarrow> Date) \<Rightarrow> Zone \<Rightarrow> TodoSummaryInput \<Rightarrow> int option" where
  \<comment> \<open>the local day of the week of the due time, 0 for Sunday\<close>
  "dueWeekDay parse zone t = (case due_at t of None \<Rightarrow> None | Some s \<Rightarrow> getDay zone (parse s))"

definition validPeriod :: "unknown \<Rightarrow> bool" where
  \<comment> \<open>the specification's words: the period is one of \<open>today\<close> and \<open>week\<close>\<close>
  "validPeriod p \<longleftrightarrow> p = JString (ascii ''today'') \<or> p = JString (ascii ''week'')"

definition summarizeInvalid :: "SummarizeTodosRequest \<Rightarrow> bool" where
  \<comment> \<open>the specification's words: \<open>todos\<close> is not an array, or the period is not valid, or
      the array is empty, or it has more than 200 items\<close>
  "summarizeInvalid body \<longleftrightarrow>
     (case req_todos body of
        None \<Rightarrow> True
      | Some todos \<Rightarrow> \<not> validPeriod (req_period body) \<or> length todos = 0 \<or> length todos > 200)"

definition requestInvalid :: "RequestBody \<Rightarrow> bool" where
  \<comment> \<open>the same of a request: a body that is \<open>null\<close> or not JSON has no array of todos\<close>
  "requestInvalid request \<longleftrightarrow>
     (case request of JsonValue body \<Rightarrow> summarizeInvalid body | _ \<Rightarrow> True)"

definition summarizeBody :: "TodoSummaryInput list \<Rightarrow> string \<Rightarrow> string \<Rightarrow> SummarizeTodosRequest" where
  "summarizeBody todos p now =
     \<lparr>req_todos = Some (map Typed todos), req_period = JString (ascii p),
      req_nowStr = Some (JString (ascii now))\<rparr>"

fun validateAll :: "nat \<Rightarrow> unknown list \<Rightarrow> ValidationResult list \<times> nat" where
  \<comment> \<open>successive calls in one process: each starts from the \<open>lastIndex\<close> the call before
      it left\<close>
  "validateAll lastIndex [] = ([], lastIndex)"
| "validateAll lastIndex (x # xs) =
     (case validateInput lastIndex x of
        (r, lastIndex') \<Rightarrow>
          (case validateAll lastIndex' xs of (rs, lastIndex'') \<Rightarrow> (r # rs, lastIndex'')))"

fun POST_parse_all :: "jsstring \<Rightarrow> nat \<Rightarrow> ParseTodoRequest list \<Rightarrow> ParseStep list \<times> nat" where
  \<comment> \<open>successive requests served by one process\<close>
  "POST_parse_all clock lastIndex [] = ([], lastIndex)"
| "POST_parse_all clock lastIndex (x # xs) =
     (case POST_parse clock lastIndex x of
        (r, lastIndex') \<Rightarrow>
          (case POST_parse_all clock lastIndex' xs of (rs, lastIndex'') \<Rightarrow> (r # rs, lastIndex'')))"

definition parseBody :: "string \<Rightarrow> ParseTodoRequest" where
  "parseBody s = \<lparr>req_text = JString (ascii s), req_currentLocalDateTime = Some (ascii ''2026-02-17T09:00'')\<rparr>"

definition localFields :: "Zone \<Rightarrow> int \<Rightarrow> int \<times> int \<times> int \<times> int \<times> int" where
  \<comment> \<open>the local year, month (1 to 12), day of the month, hour and minute of an instant\<close>
  "localFields zone t =
     (let lt = LocalTime zone t
      in (YearFromTime lt, MonthFromTime lt + 1, DateFromTime lt, HourFromTime lt, MinFromTime lt))"

definition twoDigits :: "int \<Rightarrow> jsstring" where
  "twoDigits k = padStart2 (numberToString (Some k))"

definition showFields :: "int \<times> int \<times> int \<times> int \<times> int \<Rightarrow> jsstring" where
  \<comment> \<open>the year as it prints, then \<open>-MM-DDTHH:mm\<close>\<close>
  "showFields f =
     (case f of (y, mo, d, h, mi) \<Rightarrow>
        numberToString (Some y) @ [0x2D] @ twoDigits mo @ [0x2D] @ twoDigits d @ [0x54] @
        twoDigits h @ [0x3A] @ twoDigits mi)"

definition inYear :: "int \<Rightarrow> int \<times> int \<Rightarrow> int \<times> int" where
  \<comment> \<open>a month and a day, moved into the year \<open>y\<close>: 29 February is 1 March in a year
      that has none\<close>
  "inYear y md = (if md = (2, 29) \<and> leapDays y = 0 then (3, 1) else md)"

definition isLocalDateTimeForm :: "jsstring \<Rightarrow> bool" where
  \<comment> \<open>the form \<open>YYYY-MM-DDTHH:mm\<close>: sixteen code units, digits around the four separators\<close>
  "isLocalDateTimeForm s \<longleftrightarrow>
     length s = 16 \<and> s ! 4 = 0x2D \<and> s ! 7 = 0x2D \<and> s ! 10 = 0x54 \<and> s ! 13 = 0x3A \<and>
     list_all (\<lambda>i. isDigit (s ! i)) [0, 1, 2, 3, 5, 6, 8, 9, 11, 12, 14, 15]"

definition strictEq :: "int option \<Rightarrow> int option \<Rightarrow> bool" where
  \<comment> \<open>\<open>a === b\<close> on Numbers: NaN is equal to nothing\<close>
  "strictEq a b = (case (a, b) of (Some x, Some y) \<Rightarrow> x = y | _ \<Rightarrow> False)"

definition isSameLocalDay :: "(jsstring \<Rightarrow> Date) \<Rightarrow> Zone \<Rightarrow> jsstring \<Rightarrow> Date \<Rightarrow> bool" where
  \<comment> \<open>\<open>isSameLocalDay\<close> of the summary section of the client (\<open>AiTodoDialog.tsx\<close>), which
      computes the same "today" statistics in the browser\<close>
  "isSameLocalDay parse zone dueAt ref =
     (let d = parse dueAt
      in strictEq (getFullYear zone d) (getFullYear zone ref) \<and>
         strictEq (getMonth zone d) (getMonth zone ref) \<and>
         strictEq (getDate zone d) (getDate zone ref))"

definition dueToday :: "(jsstring \<Rightarrow> Date) \<Rightarrow> Zone \<Rightarrow> jsstring \<Rightarrow> TodoSummaryInput \<Rightarrow> bool" where
  \<comment> \<open>the claim's words: the due time falls on the calendar date of the reference instant;
      the client's \<open>todos.filter((t) => t.due_at && isSameLocalDay(t.due_at, now))\<close>\<close>
  "dueToday parse zone nowStr t \<longleftrightarrow>
     (case due_at t of None \<Rightarrow> False
      | Some s \<Rightarrow> s \<noteq> [] \<and> isSameLocalDay parse zone s (parse nowStr))"

definition rawDue :: "string \<Rightarrow> ParsedTodo" where
  \<comment> \<open>a model answer with the due time \<open>s\<close>\<close>
  "rawDue s = \<lparr>raw_title = ascii ''Prepare the meeting'', raw_due_at = Some (ascii s),
               raw_priority = ascii ''high'', raw_category = None, raw_description = None\<rparr>"

definition isWordEnd :: "jsstring \<Rightarrow> nat \<Rightarrow> bool" where
  \<comment> \<open>a word of \<open>t\<close> ends at offset \<open>k\<close>: the code unit before it is not white space,
      and the one at \<open>k\<close>, if there is one, is\<close>
  "isWordEnd t k \<longleftrightarrow>
     0 < k \<and> k \<le> length t \<and> \<not> isWhiteSpace (t ! (k - 1)) \<and>
     (k = length t \<or> isWhiteSpace (t ! k))"

definition longTitle :: jsstring where
  \<comment> \<open>151 code units: fifty \<open>a\<close>, a space, forty-nine \<open>b\<close>, a space, fifty \<open>c\<close>;
      the second word ends at offset 100\<close>
  "longTitle = replicate 50 0x61 @ [0x20] @ replicate 49 0x62 @ [0x20] @ replicate 50 0x63"

definition mondayOf :: "int \<Rightarrow> int" where
  \<comment> \<open>the day number of the Monday of the week of a local time: the reference day less
      \<open>dayOfWeek == 0 ? 6 : dayOfWeek - 1\<close> days\<close>
  "mondayOf lt = Day lt - (if WeekDay lt = 0 then 6 else WeekDay lt - 1)"

definition aroundMidnight :: "TodoSummaryInput list" where
  \<comment> \<open>two todos as the application stores them (\<open>toISOString\<close>): due at 00:30 on 18 February
      and at 00:30 on 19 February 2026, Korean time\<close>
  "aroundMidnight =
     [mkTodo False (Some ''2026-02-17T15:30:00.000Z'') Medium None,
      mkTodo False (Some ''2026-02-18T15:30:00.000Z'') Medium None]"

definition exactPercent :: "int \<Rightarrow> int \<Rightarrow> real" where
  \<comment> \<open>the specification's \<open>completed / total * 100\<close>, as a real number\<close>
  "exactPercent c t = real_of_int c / real_of_int t * 100"

definition roundHalfUp :: "real \<Rightarrow> int" where
  \<comment> \<open>the specification's \<open>round\<close>: the nearest integer, the upper one of two\<close>
  "roundHalfUp x = \<lfloor>x + 1 / 2\<rfloor>"

definition twentyThreeOfForty :: "TodoSummaryInput list" where
  \<comment> \<open>forty todos, twenty-three of them completed: 57.5 per cent\<close>
  "twentyThreeOfForty =
     replicate 23 (mkTodo True None Medium None) @ replicate 17 (mkTodo False None Medium None)"

definition inheritedCategory :: "TodoSummaryInput list" where
  \<comment> \<open>two todos that are not completed and were due the day before the reference time
      2026-02-17T09:00, one in a category named \<open>constructor\<close>, one in the category
      \<open>work\<close>\<close>
  "inheritedCategory =
     [mkTodo False (Some ''2026-02-16T10:00'') High (Some ''constructor''),
      mkTodo False (Some ''2026-02-16T10:00'') High (Some ''work'')]"

definition fourDigits :: "int \<Rightarrow> jsstring" where
  \<comment> \<open>a year as \<open>YYYY\<close>\<close>
  "fourDigits y = (let s = numberToString (Some y) in replicate (4 - length s) 0x30 @ s)"

definition localDateTimeText :: "int \<times> int \<times> int \<times> int \<times> int \<Rightarrow> jsstring" where
  \<comment> \<open>the specification's form \<open>YYYY-MM-DDTHH:mm\<close> of a year, month, day, hour and minute\<close>
  "localDateTimeText f =
     (case f of (y, mo, d, h, mi) \<Rightarrow>
        fourDigits y @ [0x2D] @ twoDigits mo @ [0x2D] @ twoDigits d @ [0x54] @
        twoDigits h @ [0x3A] @ twoDigits mi)"

definition atHour :: "int \<Rightarrow> int \<Rightarrow> int \<Rightarrow> int \<Rightarrow> int" where
  \<comment> \<open>the time value of the hour \<open>h\<close> of a day of a month (1 to 12) of a year\<close>
  "atHour y m d h = MakeDate (MakeDay y (m - 1) d) (MakeTime h 0 0 0)"

definition newYork :: Zone where
  \<comment> \<open>the zone America/New_York from November 2020 to March 2024: five hours behind UTC, and
      four from the second Sunday of March, 2 o'clock, to the first Sunday of November, 2
      o'clock. A local time that the clock skips or repeats is read by the offset before the
      transition.\<close>
  "newYork =
     \<lparr>offsetAt = (\<lambda>t.
        if atHour 2021 3 14 7 \<le> t \<and> t < atHour 2021 11 7 6 \<or>
           atHour 2022 3 13 7 \<le> t \<and> t < atHour 2022 11 6 6 \<or>
           atHour 2023 3 12 7 \<le> t \<and> t < atHour 2023 11 5 6
        then - 14400000 else - 18000000),
      offsetOfLocal = (\<lambda>t.
        if atHour 2021 3 14 3 \<le> t \<and> t < atHour 2021 11 7 2 \<or>
           atHour 2022 3 13 3 \<le> t \<and> t < atHour 2022 11 6 2 \<or>
           atHour 2023 3 12 3 \<le> t \<and> t < atHour 2023 11 5 2
        then - 14400000 else - 18000000)\<rparr>"

definition oneOfEight :: "TodoSummaryInput list" where
  \<comment> \<open>eight todos, one of them completed: 12.5 per cent\<close>
  "oneOfEight = mkTodo True None Medium None # replicate 7 (mkTodo False None Medium None)"

section \<open>The rounding of doubles\<close>

declare ilog2.simps [simp del]

lemma ilog2_eval:
  "ilog2 0 = 0" "ilog2 1 = 0" "ilog2 (Suc 0) = 0"
  "ilog2 (numeral k) = (if (numeral k :: nat) < 2 then 0 else Suc (ilog2 (numeral k div 2)))"
  by (simp_all add: ilog2.simps)

lemmas fp_eval = rate_def Math_round_def fp64_def roundTiesToEven_def floorLog2_def pow2_def
  ilog2_eval Let_def

lemma ilog2_bounds: "0 < n \<Longrightarrow> 2 ^ ilog2 n \<le> n \<and> n < 2 ^ Suc (ilog2 n)"
proof (induction n rule: ilog2.induct)
  case (1 n)
  show ?case
  proof (cases "n < 2")
    case True
    then have "n = 1" using 1(2) by simp
    then show ?thesis by (simp add: ilog2.simps)
  next
    case False
    then have "0 < n div 2" by simp
    then have ih: "2 ^ ilog2 (n div 2) \<le> n div 2 \<and> n div 2 < 2 ^ Suc (ilog2 (n div 2))"
      using 1(1) False by simp
    have e: "ilog2 n = Suc (ilog2 (n div 2))"
      using False by (subst ilog2.simps) simp
    show ?thesis
      unfolding e using ih by (simp add: algebra_simps) linarith
  qed
qed

lemma pow2_powi: "pow2 e = 2 powi e"
  by (simp add: pow2_def power_int_def field_simps)

lemma pow2_pos: "0 < pow2 e"
  by (simp add: pow2_powi)

lemma pow2_add: "pow2 (a + b) = pow2 a * pow2 b"
  by (simp add: pow2_powi power_int_add)

lemma pow2_mono: "a \<le> b \<Longrightarrow> pow2 a \<le> pow2 b"
  by (simp add: pow2_powi power_int_increasing)

lemma pow2_nat: "pow2 (int n) = 2 ^ n"
  by (simp add: pow2_def)

lemma floorLog2_bounds:
  assumes "0 < x"
  shows "pow2 (floorLog2 x) \<le> x \<and> x < pow2 (floorLog2 x + 1)"
proof (cases "1 \<le> x")
  case True
  define n where "n = nat \<lfloor>x\<rfloor>"
  have n1: "0 < n" using True by (simp add: n_def)
  have n2: "real n \<le> x" using True by (simp add: n_def)
  have n3: "x < real n + 1" using True by (simp add: n_def; linarith)
  note n = n1 n2 n3
  have k: "floorLog2 x = int (ilog2 n)"
    using True by (simp add: floorLog2_def n_def)
  note b = ilog2_bounds [OF n(1)]
  have lo: "(2::real) ^ ilog2 n \<le> real n"
    using b by (metis of_nat_le_iff of_nat_numeral of_nat_power)
  have hi: "real n + 1 \<le> 2 ^ Suc (ilog2 n)"
  proof -
    have "n + 1 \<le> 2 ^ Suc (ilog2 n)" using b by simp
    then have "real (n + 1) \<le> real (2 ^ Suc (ilog2 n))" by (rule of_nat_mono)
    then show ?thesis by simp
  qed
  have a: "2 ^ ilog2 n \<le> x" using lo n2 by linarith
  have c: "x < 2 ^ Suc (ilog2 n)" using hi n3 by linarith
  have p1: "pow2 (int (ilog2 n)) = 2 ^ ilog2 n"
    by (simp add: pow2_def)
  have p2: "pow2 (int (ilog2 n) + 1) = 2 ^ Suc (ilog2 n)"
    by (simp add: pow2_def nat_add_distrib)
  show ?thesis
    unfolding k p1 p2 using a c by (intro conjI)
next
  case False
  define y where "y = 1 / x"
  have y: "1 < y" using False assms by (simp add: y_def)
  define n where "n = nat (\<lceil>y\<rceil> - 1)"
  have n1: "0 < n" using y by (simp add: n_def)
  have n2: "real n < y" using y by (simp add: n_def; linarith)
  have n3: "y \<le> real n + 1" using y by (simp add: n_def; linarith)
  note n = n1 n2 n3
  have k: "floorLog2 x = - int (ilog2 n) - 1"
    using False by (simp add: floorLog2_def n_def y_def)
  note b = ilog2_bounds [OF n(1)]
  have lo: "(2::real) ^ ilog2 n \<le> real n"
    using b by (metis of_nat_le_iff of_nat_numeral of_nat_power)
  have hi: "real n + 1 \<le> 2 ^ Suc (ilog2 n)"
  proof -
    have "n + 1 \<le> 2 ^ Suc (ilog2 n)" using b by simp
    then have "real (n + 1) \<le> real (2 ^ Suc (ilog2 n))" by (rule of_nat_mono)
    then show ?thesis by simp
  qed
  have a: "2 ^ ilog2 n < y" using lo n by linarith
  have c: "y \<le> 2 ^ Suc (ilog2 n)" using hi n by linarith
  have x: "x = 1 / y" using assms by (simp add: y_def)
  have s: "nat (1 + int (ilog2 n)) = Suc (ilog2 n)"
    by linarith
  have p1: "pow2 (- int (ilog2 n) - 1) = 1 / 2 ^ Suc (ilog2 n)"
    by (simp add: pow2_def s)
  have p2: "pow2 (- int (ilog2 n) - 1 + 1) = 1 / 2 ^ ilog2 n"
    by (simp add: pow2_def)
  have A: "1 / 2 ^ Suc (ilog2 n) \<le> x"
    unfolding x using c y by (intro divide_left_mono) simp_all
  have B: "x < 1 / 2 ^ ilog2 n"
    unfolding x using a y by (intro divide_strict_left_mono) simp_all
  show ?thesis
    unfolding k p1 p2 using A B by (intro conjI)
qed

lemma roundTiesToEven_error: "\<bar>of_int (roundTiesToEven y) - y\<bar> \<le> 1 / 2"
  unfolding roundTiesToEven_def Let_def
  by (auto simp: abs_if) linarith+

lemma fp64_error:
  assumes "pow2 (- 1022) \<le> x"
  shows "\<bar>fp64 x - x\<bar> \<le> x * pow2 (- 53)"
proof -
  have x: "0 < x" using assms pow2_pos [of "- 1022"] by linarith
  define k where "k = floorLog2 x"
  note b = floorLog2_bounds [OF x, folded k_def]
  have "pow2 (- 1022) < pow2 (k + 1)" using assms b by linarith
  then have "- 1022 < k + 1"
    using pow2_mono [of "k + 1" "- 1022"] by (cases "- 1022 < k + 1") auto
  then have e: "max (k - 52) (- 1074) = k - 52" by simp
  define m where "m = roundTiesToEven (x / pow2 (k - 52))"
  have f: "fp64 x = of_int m * pow2 (k - 52)"
    using x by (simp add: fp64_def Let_def k_def [symmetric] e m_def)
  have "\<bar>of_int m - x / pow2 (k - 52)\<bar> \<le> 1 / 2"
    unfolding m_def by (rule roundTiesToEven_error)
  then have "\<bar>of_int m - x / pow2 (k - 52)\<bar> * pow2 (k - 52) \<le> 1 / 2 * pow2 (k - 52)"
    using pow2_pos [of "k - 52"] by (intro mult_right_mono) simp_all
  moreover have "\<bar>of_int m - x / pow2 (k - 52)\<bar> * pow2 (k - 52) = \<bar>fp64 x - x\<bar>"
  proof -
    have "\<bar>of_int m - x / pow2 (k - 52)\<bar> * pow2 (k - 52)
        = \<bar>(of_int m - x / pow2 (k - 52)) * pow2 (k - 52)\<bar>"
      using pow2_pos [of "k - 52"] by (simp add: abs_mult)
    also have "(of_int m - x / pow2 (k - 52)) * pow2 (k - 52) = fp64 x - x"
      using pow2_pos [of "k - 52"] by (simp add: f field_simps)
    finally show ?thesis .
  qed
  moreover have "1 / 2 * pow2 (k - 52) = pow2 k * pow2 (- 53)"
  proof -
    have "pow2 (k - 52) = pow2 (k + (- 53) + 1)" by simp
    also have "\<dots> = pow2 k * pow2 (- 53) * pow2 1" by (simp only: pow2_add)
    finally show ?thesis by (simp add: pow2_def)
  qed
  moreover have "pow2 k * pow2 (- 53) \<le> x * pow2 (- 53)"
    using b pow2_pos [of "- 53"] by (intro mult_right_mono) simp_all
  ultimately show ?thesis by linarith
qed

text \<open>
  The percentage that \<open>rate\<close> computes is within \<open>2^-34\<close> of the exact one, for counts that
  an array can have.
\<close>

lemma rate_zero: "0 < t \<Longrightarrow> rate 0 t = 0"
  by (simp add: rate_def fp64_def Math_round_def)

lemma percent_error:
  assumes c: "0 < c" "c \<le> t" and t: "t < 2 ^ 32"
  shows "\<bar>fp64 (fp64 (real_of_int c / real_of_int t) * 100) - exactPercent c t\<bar> < 1 / 2 ^ 34"
proof -
  define x where "x = real_of_int c / real_of_int t"
  define q where "q = fp64 x"
  define p where "p = fp64 (q * 100)"
  have tp: "0 < real_of_int t" using c by simp
  have x1: "x \<le> 1" using c tp by (simp add: x_def)
  have "1 \<le> real_of_int c" using c by simp
  then have "1 / real_of_int t \<le> x"
    unfolding x_def using tp by (intro divide_right_mono) simp_all
  moreover have "1 / 2 ^ 32 < 1 / real_of_int t"
  proof -
    have "real_of_int t < 2 ^ 32" using t by (metis of_int_less_iff of_int_numeral of_int_power)
    then show ?thesis using tp by (intro divide_strict_left_mono) simp_all
  qed
  ultimately have x0: "1 / 2 ^ 32 < x" by linarith
  have m: "pow2 (- 1022) \<le> pow2 (- 32)" by (rule pow2_mono) simp
  have p32: "pow2 (- 32) = 1 / 2 ^ 32" and u: "pow2 (- 53) = 1 / 2 ^ 53"
    by (simp_all add: pow2_def)
  have nx: "pow2 (- 1022) \<le> x" using m x0 unfolding p32 by linarith
  have e1: "\<bar>q - x\<bar> \<le> x * (1 / 2 ^ 53)"
    using fp64_error [OF nx] by (simp only: q_def u)
  have "x \<le> q * 100" using e1 x0 unfolding abs_le_iff abs_less_iff by (simp; linarith)
  then have nq: "pow2 (- 1022) \<le> q * 100" using nx by linarith
  have e2: "\<bar>p - q * 100\<bar> \<le> q * 100 * (1 / 2 ^ 53)"
    using fp64_error [OF nq] by (simp only: p_def u)
  have "\<bar>p - x * 100\<bar> < 1 / 2 ^ 34"
    using e1 e2 x1 x0 unfolding abs_le_iff abs_less_iff by (simp; linarith)
  then show ?thesis
    by (simp add: p_def q_def x_def exactPercent_def)
qed

lemma rate_rounds:
  assumes c: "0 \<le> c" "c \<le> t" and t: "0 < t" "t < 2 ^ 32"
  shows "rate c t = roundHalfUp (exactPercent c t) \<or>
         (frac (exactPercent c t) = 1 / 2 \<and> rate c t = roundHalfUp (exactPercent c t) - 1)"
proof (cases "c = 0")
  case True
  then show ?thesis using t by (simp add: rate_zero exactPercent_def roundHalfUp_def)
next
  case False
  then have c0: "0 < c" using c by simp
  define X where "X = exactPercent c t"
  define p where "p = fp64 (fp64 (real_of_int c / real_of_int t) * 100)"
  define k where "k = roundHalfUp X"
  define g where "g = 1 / (2 * real_of_int t)"
  define N where "N = 200 * c + t - 2 * t * k"
  have r: "rate c t = \<lfloor>p + 1 / 2\<rfloor>"
    using t by (simp add: rate_def Math_round_def p_def)
  have d: "\<bar>p - X\<bar> < 1 / 2 ^ 34"
    unfolding p_def X_def by (rule percent_error [OF c0 c(2) t(2)])
  have tp: "0 < real_of_int t" using t by simp
  have "real_of_int t < 2 ^ 32" using t by (metis of_int_less_iff of_int_numeral of_int_power)
  then have "2 * real_of_int t < 2 ^ 33" by simp
  then have "1 / 2 ^ 33 < 1 / (2 * real_of_int t)"
    using tp by (intro divide_strict_left_mono) simp_all
  then have g: "1 / 2 ^ 33 < g" by (simp add: g_def)
  have k1: "real_of_int k \<le> X + 1 / 2" and k2: "X + 1 / 2 < real_of_int k + 1"
    unfolding k_def roundHalfUp_def by linarith+
  have N: "X + 1 / 2 - real_of_int k = real_of_int N * g"
    using tp by (simp add: N_def g_def X_def exactPercent_def field_simps)
  have gp: "0 < g" using g by simp
  have "0 \<le> real_of_int N * g" using k1 N by linarith
  then have N0: "0 \<le> N" using gp by (simp add: zero_le_mult_iff)
  have d1: "p - X < 1 / 2 ^ 34" and d2: "- (p - X) < 1 / 2 ^ 34"
    using d unfolding abs_less_iff by blast+
  have pw: "(1 :: real) / 2 ^ 34 < 1 / 2 ^ 33" by simp
  show ?thesis
  proof (cases "N = 0")
    case True
    then have h: "X + 1 / 2 = real_of_int k" using N by simp
    then have "\<lfloor>X\<rfloor> = k - 1" by linarith
    then have f: "frac X = 1 / 2" using h by (simp add: frac_def)
    have "(1 :: real) / 2 ^ 34 < 1 / 2" by simp
    then have d': "p - X < 1 / 2" "X - p < 1 / 2"
      using d1 d2 by linarith+
    have "real_of_int (k - 1) \<le> p + 1 / 2" using d'(2) h by (simp; linarith)
    moreover have "p + 1 / 2 < real_of_int k + 1" using d'(1) h by linarith
    ultimately have "\<lfloor>p + 1 / 2\<rfloor> = k \<or> \<lfloor>p + 1 / 2\<rfloor> = k - 1"
      by linarith
    then show ?thesis using f r by (auto simp: X_def k_def)
  next
    case False
    then have "1 \<le> N" using N0 by simp
    then have "1 \<le> real_of_int N" by simp
    then have "1 * g \<le> real_of_int N * g" using gp by (intro mult_right_mono) simp_all
    then have lo: "1 / 2 ^ 33 < X + 1 / 2 - real_of_int k" using g N by linarith
    have "real_of_int N * g < 1" using k2 N by linarith
    moreover have "1 = (2 * real_of_int t) * g" using tp by (simp add: g_def)
    ultimately have "real_of_int N * g < (2 * real_of_int t) * g" by simp
    then have "real_of_int N < 2 * real_of_int t" using gp by simp
    then have "N < 2 * t" by linarith
    then have "N + 1 \<le> 2 * t" by simp
    then have "real_of_int (N + 1) \<le> real_of_int (2 * t)" by (rule of_int_le_iff [THEN iffD2])
    then have "(real_of_int N + 1) * g \<le> (2 * real_of_int t) * g"
      using gp by (intro mult_right_mono) simp_all
    then have "real_of_int N * g + g \<le> 1" using tp by (simp add: g_def field_simps)
    then have hi: "X + 1 / 2 - real_of_int k < 1 - 1 / 2 ^ 33" using g N by linarith
    have "real_of_int k \<le> p + 1 / 2" using d2 lo pw by linarith
    moreover have "p + 1 / 2 < real_of_int k + 1" using d1 hi pw by linarith
    ultimately have "\<lfloor>p + 1 / 2\<rfloor> = k" by linarith
    then show ?thesis using r by (simp add: k_def X_def)
  qed
qed

lemma rate_near:
  assumes c: "0 \<le> c" "c \<le> t" and t: "0 < t" "t < 2 ^ 32"
  shows "\<bar>real_of_int (rate c t) - exactPercent c t\<bar> \<le> 1 / 2"
proof -
  define X where "X = exactPercent c t"
  have k1: "real_of_int (roundHalfUp X) \<le> X + 1 / 2" and k2: "X + 1 / 2 < real_of_int (roundHalfUp X) + 1"
    unfolding roundHalfUp_def by linarith+
  from rate_rounds [OF assms, folded X_def] show ?thesis
  proof
    assume "rate c t = roundHalfUp X"
    then show ?thesis using k1 k2 unfolding X_def [symmetric] abs_le_iff by (simp; linarith)
  next
    assume a: "frac X = 1 / 2 \<and> rate c t = roundHalfUp X - 1"
    then have "X = real_of_int \<lfloor>X\<rfloor> + 1 / 2" by (simp add: frac_def)
    moreover from this have "roundHalfUp X = \<lfloor>X\<rfloor> + 1"
      unfolding roundHalfUp_def by linarith
    ultimately show ?thesis using a unfolding X_def [symmetric] abs_le_iff by (simp; linarith)
  qed
qed

text \<open>
  When the total is a power of two, the quotient and the product are doubles, and \<open>rate\<close>
  rounds the exact percentage.
\<close>

lemma pow2_less_cancel: "pow2 a < pow2 b \<Longrightarrow> a < b"
  using pow2_mono [of b a] by (cases "a < b") auto

lemma roundTiesToEven_of_int: "roundTiesToEven (of_int j) = j"
  by (simp add: roundTiesToEven_def)

lemma fp64_representable:
  assumes j: "0 < j" "j < 2 ^ 53" and e: "- 1074 \<le> e"
  shows "fp64 (of_int j * pow2 e) = of_int j * pow2 e"
proof -
  define x where "x = real_of_int j * pow2 e"
  have x: "0 < x" using j pow2_pos [of e] by (simp add: x_def)
  define f where "f = floorLog2 x"
  define e' where "e' = max (f - 52) (- 1074)"
  have "real_of_int j < 2 ^ 53" using j by (metis of_int_less_iff of_int_numeral of_int_power)
  then have "x < 2 ^ 53 * pow2 e"
    unfolding x_def using pow2_pos [of e] by (intro mult_strict_right_mono) simp_all
  moreover have "(2::real) ^ 53 * pow2 e = pow2 (53 + e)"
  proof -
    have "pow2 53 = 2 ^ 53" by (simp add: pow2_def)
    moreover have "pow2 (53 + e) = pow2 53 * pow2 e" by (rule pow2_add)
    ultimately show ?thesis by simp
  qed
  ultimately have "pow2 f < pow2 (53 + e)"
    using floorLog2_bounds [OF x] by (simp add: f_def)
  then have "f < 53 + e" by (rule pow2_less_cancel)
  then have le: "e' \<le> e" using e by (simp add: e'_def)
  define N where "N = j * 2 ^ nat (e - e')"
  have "pow2 e = pow2 (e - e') * pow2 e'"
    by (simp add: pow2_add [symmetric])
  moreover have "pow2 (e - e') = 2 ^ nat (e - e')"
    using le by (simp add: pow2_def)
  ultimately have xe: "x = real_of_int N * pow2 e'"
    by (simp add: x_def N_def)
  then have "x / pow2 e' = real_of_int N"
    using pow2_pos [of e'] by simp
  then have "roundTiesToEven (x / pow2 e') = N"
    by (simp add: roundTiesToEven_of_int)
  then have "fp64 x = real_of_int N * pow2 e'"
    using x by (simp add: fp64_def Let_def f_def [symmetric] e'_def [symmetric])
  then show ?thesis
    using xe by (simp add: x_def)
qed

lemma rate_power_of_two:
  assumes c: "0 \<le> c" "c \<le> t" and t: "t = 2 ^ k" "t < 2 ^ 32"
  shows "rate c t = roundHalfUp (exactPercent c t)"
proof (cases "c = 0")
  case True
  then show ?thesis using t by (simp add: rate_zero exactPercent_def roundHalfUp_def)
next
  case False
  then have c0: "0 < c" using c by simp
  have tp: "0 < t" using t by simp
  have lt: "(2::int) ^ k < 2 ^ 32" using t by simp
  have k: "k < 32"
  proof (rule ccontr)
    assume "\<not> k < 32"
    then have "32 \<le> k" by simp
    then have "(2::int) ^ 32 \<le> 2 ^ k" by (intro power_increasing) simp_all
    then show False using lt by simp
  qed
  have c53: "c < 2 ^ 53" "100 * c < 2 ^ 53" using c t(2) by simp_all
  have inv: "1 / real_of_int t = pow2 (- int k)"
    using t(1) by (simp add: pow2_def)
  have "real_of_int c / real_of_int t = real_of_int c * (1 / real_of_int t)"
    by simp
  then have q: "real_of_int c / real_of_int t = real_of_int c * pow2 (- int k)"
    by (simp only: inv)
  have e: "- 1074 \<le> - int k" using k by simp
  have r1: "fp64 (real_of_int c / real_of_int t) = real_of_int c * pow2 (- int k)"
    unfolding q by (rule fp64_representable [OF c0 c53(1) e])
  have r2: "real_of_int c * pow2 (- int k) * 100 = real_of_int (100 * c) * pow2 (- int k)"
    by simp
  have r3: "fp64 (real_of_int (100 * c) * pow2 (- int k)) = real_of_int (100 * c) * pow2 (- int k)"
    using c0 c53(2) e by (intro fp64_representable) simp_all
  have "fp64 (fp64 (real_of_int c / real_of_int t) * 100)
      = fp64 (real_of_int c * pow2 (- int k) * 100)"
    by (simp only: r1)
  also have "\<dots> = fp64 (real_of_int (100 * c) * pow2 (- int k))"
    by (simp only: r2)
  also have "\<dots> = real_of_int (100 * c) * pow2 (- int k)"
    by (rule r3)
  also have "\<dots> = real_of_int c * pow2 (- int k) * 100"
    by (simp only: r2)
  also have "\<dots> = exactPercent c t"
    by (simp only: exactPercent_def q)
  finally have "fp64 (fp64 (real_of_int c / real_of_int t) * 100) = exactPercent c t" .
  then show ?thesis
    using tp by (simp add: rate_def Math_round_def roundHalfUp_def)
qed

section \<open>The fields of the statistics\<close>

lemma computeStats_total: "ps_total (computeStats parse zone todos nowStr) = int (length todos)"
  by (simp add: computeStats_def Let_def)

lemma computeStats_completed:
  "ps_completed (computeStats parse zone todos nowStr) = int (length (filter completed todos))"
  by (simp add: computeStats_def Let_def)

lemma computeStats_inProgress:
  "ps_inProgress (computeStats parse zone todos nowStr)
     = int (length todos) - int (length (filter completed todos))"
  by (simp add: computeStats_def Let_def)

lemma computeStats_completionRate:
  "ps_completionRate (computeStats parse zone todos nowStr)
     = rate (int (length (filter completed todos))) (int (length todos))"
  by (simp add: computeStats_def Let_def)

text \<open>
  Claim C1, as the code has it. For every list of todos (an array has fewer than \<open>2^32\<close>
  elements) and every reference time, the statistics have \<open>total\<close> the length of the list,
  \<open>completed\<close> the number of completed todos and \<open>completed + inProgress = total\<close>;
  \<open>completionRate\<close> is 0 when the list is empty, and otherwise an integer within one half of
  \<open>completed / total * 100\<close>: it is that percentage rounded, except that a percentage
  exactly halfway between two integers may come out as the lower of the two; it does not
  when the total is a power of two.
\<close>

theorem computeStats_totals:
  assumes "length todos < 2 ^ 32"
  shows
  "ps_total (computeStats parse zone todos nowStr) = int (length todos) \<and>
   ps_completed (computeStats parse zone todos nowStr) = int (length (filter completed todos)) \<and>
   ps_completed (computeStats parse zone todos nowStr)
     + ps_inProgress (computeStats parse zone todos nowStr)
     = ps_total (computeStats parse zone todos nowStr) \<and>
   (ps_total (computeStats parse zone todos nowStr) = 0 \<longrightarrow>
      ps_completionRate (computeStats parse zone todos nowStr) = 0) \<and>
   (0 < ps_total (computeStats parse zone todos nowStr) \<longrightarrow>
      \<bar>real_of_int (ps_completionRate (computeStats parse zone todos nowStr))
         - exactPercent (ps_completed (computeStats parse zone todos nowStr))
             (ps_total (computeStats parse zone todos nowStr))\<bar> \<le> 1 / 2 \<and>
      (ps_completionRate (computeStats parse zone todos nowStr)
         = roundHalfUp (exactPercent (ps_completed (computeStats parse zone todos nowStr))
             (ps_total (computeStats parse zone todos nowStr))) \<or>
       frac (exactPercent (ps_completed (computeStats parse zone todos nowStr))
               (ps_total (computeStats parse zone todos nowStr))) = 1 / 2 \<and>
       ps_completionRate (computeStats parse zone todos nowStr)
         = roundHalfUp (exactPercent (ps_completed (computeStats parse zone todos nowStr))
             (ps_total (computeStats parse zone todos nowStr))) - 1)) \<and>
   ((\<exists>k. ps_total (computeStats parse zone todos nowStr) = 2 ^ k) \<longrightarrow>
      ps_completionRate (computeStats parse zone todos nowStr)
        = roundHalfUp (exactPercent (ps_completed (computeStats parse zone todos nowStr))
            (ps_total (computeStats parse zone todos nowStr))))"
proof -
  let ?c = "int (length (filter completed todos))" and ?t = "int (length todos)"
  have c: "0 \<le> ?c" "?c \<le> ?t" by simp_all
  have t: "?t < 2 ^ 32"
    using assms by (metis of_nat_less_iff of_nat_numeral of_nat_power)
  have z: "?t = 0 \<longrightarrow> rate ?c ?t = 0" by (simp add: rate_def)
  have r: "0 < ?t \<longrightarrow>
      \<bar>real_of_int (rate ?c ?t) - exactPercent ?c ?t\<bar> \<le> 1 / 2 \<and>
      (rate ?c ?t = roundHalfUp (exactPercent ?c ?t) \<or>
       frac (exactPercent ?c ?t) = 1 / 2 \<and> rate ?c ?t = roundHalfUp (exactPercent ?c ?t) - 1)"
    using rate_near [OF c _ t] rate_rounds [OF c _ t] by blast
  have e: "(\<exists>k. ?t = 2 ^ k) \<longrightarrow> rate ?c ?t = roundHalfUp (exactPercent ?c ?t)"
    using rate_power_of_two [OF c _ t] by blast
  show ?thesis
    unfolding computeStats_total computeStats_completed computeStats_inProgress
      computeStats_completionRate
    using z r e by simp
qed

theorem computeStats_totals_witness:
  "ps_total (computeStats (Date_parse KST) KST scenarioA (ascii ''2026-02-17T09:00'')) = 10 \<and>
   ps_completed (computeStats (Date_parse KST) KST scenarioA (ascii ''2026-02-17T09:00'')) = 4 \<and>
   ps_inProgress (computeStats (Date_parse KST) KST scenarioA (ascii ''2026-02-17T09:00'')) = 6 \<and>
   ps_completionRate (computeStats (Date_parse KST) KST scenarioA (ascii ''2026-02-17T09:00'')) = 40 \<and>
   ps_completionRate (computeStats (Date_parse KST) KST oneOfEight (ascii ''2026-02-17T09:00'')) = 13"
proof -
  let ?S = "computeStats (Date_parse KST) KST scenarioA (ascii ''2026-02-17T09:00'')"
  let ?E = "computeStats (Date_parse KST) KST oneOfEight (ascii ''2026-02-17T09:00'')"
  have l: "length scenarioA < 2 ^ 32" by (simp add: scenarioA_def)
  note T = computeStats_totals [of scenarioA "Date_parse KST" KST "ascii ''2026-02-17T09:00''", OF l]
  have n: "int (length scenarioA) = 10" "int (length (filter completed scenarioA)) = 4"
    by (simp_all add: scenarioA_def mkTodo_def)
  have a: "ps_total ?S = 10" and b: "ps_completed ?S = 4"
    using T n by simp_all
  have c: "ps_inProgress ?S = 6"
    using T a b by linarith
  have e: "exactPercent 4 10 = 40" "frac (40 :: real) = 0" "roundHalfUp 40 = 40"
    by (simp_all add: exactPercent_def roundHalfUp_def frac_def)
  have d: "ps_completionRate ?S = 40"
    using T unfolding a b e by simp
  have l8: "length oneOfEight < 2 ^ 32" by (simp add: oneOfEight_def)
  note T8 = computeStats_totals [of oneOfEight "Date_parse KST" KST "ascii ''2026-02-17T09:00''",
      OF l8]
  have n8: "int (length oneOfEight) = 8" "int (length (filter completed oneOfEight)) = 1"
    by (simp_all add: oneOfEight_def mkTodo_def)
  have a8: "ps_total ?E = 8" and b8: "ps_completed ?E = 1"
    using T8 n8 by simp_all
  have p8: "\<exists>k. (8 :: int) = 2 ^ k"
    by (rule exI [of _ 3]) simp
  have e8: "roundHalfUp (exactPercent 1 8) = 13"
    by (simp add: exactPercent_def roundHalfUp_def)
  have f: "ps_completionRate ?E = 13"
    using T8 p8 unfolding a8 b8 e8 by blast
  show ?thesis using a b c d f by (intro conjI)
qed

text \<open>
  23 of 40 is 57.5 per cent, which rounds to 58. The quotient 23 / 40 is not a double; the
  nearest one lies below it, its product with 100 is the double next below 57.5, and
  \<open>Math.round\<close> gives 57.
\<close>

theorem computeStats_rate_below_half:
  "ps_total (computeStats (Date_parse KST) KST twentyThreeOfForty (ascii ''2026-02-17T09:00'')) = 40 \<and>
   ps_completed (computeStats (Date_parse KST) KST twentyThreeOfForty (ascii ''2026-02-17T09:00'')) = 23 \<and>
   ps_completionRate (computeStats (Date_parse KST) KST twentyThreeOfForty (ascii ''2026-02-17T09:00''))
     = 57 \<and>
   roundHalfUp (exactPercent 23 40) = 58"
proof -
  have n: "int (length twentyThreeOfForty) = 40"
      "int (length (filter completed twentyThreeOfForty)) = 23"
    by (simp_all add: twentyThreeOfForty_def mkTodo_def)
  have r: "rate 23 40 = 57"
    by (simp add: fp_eval)
  have e: "roundHalfUp (exactPercent 23 40) = 58"
    by (simp add: exactPercent_def roundHalfUp_def)
  show ?thesis
    unfolding computeStats_total computeStats_completed computeStats_completionRate n
    using r e by (intro conjI) simp_all
qed

section \<open>Evaluating the model on concrete inputs\<close>

lemmas string_eval = ascii_def trim_def isWhiteSpace_def startsWith_def truthy_def
  numberToString_def padStart2_def
lemmas parse_eval = Date_parse_def digits4_def fractionMs_def digits2_def expect_def isDigit_def
  digitVal_def parseSeconds_def parseOffset_def DaysInMonth_def leapDays_def DaysInYear_def
  MakeDay_def MakeDate_def MakeTime_def DayFromYear_def monthStart_def msPerDay_def
  UTC_def fixedZone_def
lemmas date_eval = Day_def TimeWithinDay_def YearFromTime_def InLeapYear_def DayWithinYear_def
  MonthFromTime_def DateFromTime_def WeekDay_def HourFromTime_def MinFromTime_def
  LocalTime_def UTC_def fixedZone_def getFullYear_def getMonth_def getDate_def getDay_def getHours_def
  getMinutes_def setDate_def setHours_def setFullYear_def Date_lt_def Date_le_def
  numberAdd_def Let_def

section \<open>The overdue criterion\<close>

text \<open>
  The source tests \<open>t.due_at\<close> for truthiness, which the empty string fails; the
  specification asks for a due time that is not null. The two agree because the empty
  string is no date: \<open>new Date("")\<close> is invalid.
\<close>

lemma dueBefore_iff:
  assumes "parse [] = None"
  shows "dueBefore parse (parse nowStr) t \<longleftrightarrow> overdueCriterion parse nowStr t"
  using assms
  by (cases "due_at t")
     (auto simp: dueBefore_def overdueCriterion_def truthy_def Date_lt_def split: option.splits)

lemma countIn_snoc: "countIn P (xs @ [x]) = countIn P xs + (if P x then 1 else 0)"
  by (simp add: countIn_def)

lemma countIn_zero_iff: "countIn P xs = 0 \<longleftrightarrow> (\<forall>x \<in> set xs. \<not> P x)"
  by (simp add: countIn_def filter_empty_conv)

lemma countIn_nonneg: "0 \<le> countIn P xs"
  by (simp add: countIn_def)

lemma countIn_filter: "countIn P (filter Q xs) = countIn (\<lambda>x. Q x \<and> P x) xs"
  by (simp add: countIn_def conj_commute)

lemma categoryCompletion_inv:
  fixes parse now
  defines "cc xs \<equiv> foldl (categoryStep parse now) Map.empty xs"
  shows "(\<forall>k e. cc xs k = Some e \<longrightarrow>
            cc_overdue e = countIn (\<lambda>t. dueBefore parse now t \<and> categoryKey t = k) xs \<and>
            cc_total e = countIn (\<lambda>t. categoryKey t = k) xs \<and>
            cc_completed e = countIn (\<lambda>t. completed t \<and> categoryKey t = k) xs)
       \<and> (\<forall>k. cc xs k = None \<longleftrightarrow> (k \<in> set inheritedKeys \<or> (\<forall>t \<in> set xs. categoryKey t \<noteq> k)))"
proof (induction xs rule: rev_induct)
  case Nil
  show ?case by (simp add: cc_def)
next
  case (snoc x xs)
  have step: "cc (xs @ [x]) = categoryStep parse now (cc xs) x"
    by (simp add: cc_def)
  show ?case
  proof (cases "categoryKey x \<in> set inheritedKeys")
    case True
    then have "cc xs (categoryKey x) = None" using snoc.IH by blast
    then have same: "cc (xs @ [x]) = cc xs"
      using True by (simp add: step categoryStep_def)
    show ?thesis
      unfolding same using snoc.IH True
      by (auto simp: countIn_snoc)
  next
    case False
    show ?thesis
    proof (cases "cc xs (categoryKey x)")
      case None
      then have fresh: "\<forall>t \<in> set xs. categoryKey t \<noteq> categoryKey x"
        using snoc.IH False by blast
      have z: "countIn (\<lambda>t. Q t \<and> categoryKey t = categoryKey x) xs = 0" for Q
        using fresh by (simp add: countIn_zero_iff)
      have z': "countIn (\<lambda>t. categoryKey t = categoryKey x) xs = 0"
        using fresh by (simp add: countIn_zero_iff)
      show ?thesis
        using snoc.IH False None z z'
        by (auto simp: step categoryStep_def Let_def countIn_snoc)
    next
      case (Some e)
      show ?thesis
        using snoc.IH False Some
        by (auto simp: step categoryStep_def Let_def countIn_snoc)
    qed
  qed
qed

lemma overdueByCategory_inv:
  defines "m xs \<equiv> foldl overdueCategoryStep Map.empty xs"
  shows "m xs k =
     (if k = ascii ''__proto__'' \<or> countIn (\<lambda>t. categoryKey t = k) xs = 0 then None
      else if k \<in> set inheritedFunctions then Some Text
      else Some (Count (countIn (\<lambda>t. categoryKey t = k) xs)))"
proof (induction xs arbitrary: k rule: rev_induct)
  case Nil
  show ?case by (simp add: m_def countIn_def)
next
  case (snoc x xs)
  have step: "m (xs @ [x]) = overdueCategoryStep (m xs) x"
    by (simp add: m_def)
  have nn: "0 \<le> countIn (\<lambda>t. categoryKey t = j) xs" for j
    by (rule countIn_nonneg)
  show ?case
  proof (cases "categoryKey x = k")
    case False
    then show ?thesis
      using snoc.IH[of k]
      by (auto simp: step overdueCategoryStep_def Let_def countIn_snoc split: option.splits Tally.splits)
  next
    case True
    then show ?thesis
      using snoc.IH[of k] nn[of k]
      by (auto simp: step overdueCategoryStep_def Let_def countIn_snoc split: option.splits Tally.splits)
  qed
qed

lemma overdueByPriority_inv:
  defines "m xs \<equiv> foldl (\<lambda>m t. tallyStep m (priority t)) Map.empty xs"
  shows "m xs p =
     (if countIn (\<lambda>t. priority t = p) xs = 0 then None
      else Some (countIn (\<lambda>t. priority t = p) xs))"
proof (induction xs arbitrary: p rule: rev_induct)
  case Nil
  show ?case by (simp add: m_def countIn_def)
next
  case (snoc x xs)
  have step: "m (xs @ [x]) = tallyStep (m xs) (priority x)"
    by (simp add: m_def)
  have nn: "0 \<le> countIn (\<lambda>t. priority t = j) xs" for j
    by (rule countIn_nonneg)
  show ?case
    using snoc.IH[of p] nn[of p]
    by (auto simp: step tallyStep_def countIn_snoc)
qed

lemma computeStats_overdue_field:
  "ps_overdue (computeStats parse zone todos nowStr)
     = countIn (dueBefore parse (parse nowStr)) todos"
  by (simp add: computeStats_def Let_def countIn_def)

lemma computeStats_categoryCompletion:
  "ps_categoryCompletion (computeStats parse zone todos nowStr)
     = foldl (categoryStep parse (parse nowStr)) Map.empty todos"
  by (simp add: computeStats_def Let_def)

lemma computeStats_overdueByCategory:
  "ps_overdueByCategory (computeStats parse zone todos nowStr)
     = foldl overdueCategoryStep Map.empty (filter (dueBefore parse (parse nowStr)) todos)"
  by (simp add: computeStats_def Let_def)

lemma computeStats_overdueByPriority:
  "ps_overdueByPriority (computeStats parse zone todos nowStr)
     = foldl (\<lambda>m t. tallyStep m (priority t)) Map.empty
         (filter (dueBefore parse (parse nowStr)) todos)"
  by (simp add: computeStats_def Let_def)

text \<open>
  The overdue counts, as far as they follow the criterion. For every list of todos and every
  reference time, the overdue total is the number of todos that are not completed, have a
  due time that is not null, and whose due instant is strictly before the reference instant.
  Every per-category overdue count, every count of \<open>overdueByCategory\<close> and every count of
  \<open>overdueByPriority\<close> that there is, is the number of todos of that category or priority
  that meet the criterion, and every category name that is not the name of a property of
  \<open>Object.prototype\<close> has its count. (\<open>new Date("")\<close> is invalid, which the hypothesis says
  of the parser.)
\<close>

theorem computeStats_overdue:
  assumes "parse [] = None"
  shows
   "ps_overdue (computeStats parse zone todos nowStr)
      = int (length (filter (overdueCriterion parse nowStr) todos)) \<and>
    (\<forall>k e. ps_categoryCompletion (computeStats parse zone todos nowStr) k = Some e \<longrightarrow>
       cc_overdue e
         = int (length (filter (\<lambda>t. overdueCriterion parse nowStr t \<and> categoryKey t = k) todos))) \<and>
    (\<forall>k. k \<notin> set inheritedKeys \<longrightarrow>
       (ps_categoryCompletion (computeStats parse zone todos nowStr) k = None)
         = (\<forall>t \<in> set todos. categoryKey t \<noteq> k)) \<and>
    (\<forall>k n. ps_overdueByCategory (computeStats parse zone todos nowStr) k = Some (Count n) \<longrightarrow>
       n = int (length (filter (\<lambda>t. overdueCriterion parse nowStr t \<and> categoryKey t = k) todos))) \<and>
    (\<forall>k. k \<notin> set inheritedKeys \<longrightarrow>
       ps_overdueByCategory (computeStats parse zone todos nowStr) k =
         (if \<exists>t \<in> set todos. overdueCriterion parse nowStr t \<and> categoryKey t = k
          then Some (Count (int (length
                 (filter (\<lambda>t. overdueCriterion parse nowStr t \<and> categoryKey t = k) todos))))
          else None)) \<and>
    (\<forall>p. ps_overdueByPriority (computeStats parse zone todos nowStr) p =
         (if \<exists>t \<in> set todos. overdueCriterion parse nowStr t \<and> priority t = p
          then Some (int (length
                 (filter (\<lambda>t. overdueCriterion parse nowStr t \<and> priority t = p) todos)))
          else None))"
proof -
  let ?late = "dueBefore parse (parse nowStr)"
  have crit: "?late = overdueCriterion parse nowStr"
    using dueBefore_iff[of parse nowStr] assms by auto
  have a: "ps_overdue (computeStats parse zone todos nowStr)
      = int (length (filter (overdueCriterion parse nowStr) todos))"
    by (simp add: computeStats_overdue_field crit countIn_def)
  note cc = categoryCompletion_inv[of parse "parse nowStr" todos,
      folded computeStats_categoryCompletion[of parse zone todos nowStr], unfolded crit countIn_def]
  have b: "\<forall>k e. ps_categoryCompletion (computeStats parse zone todos nowStr) k = Some e \<longrightarrow>
       cc_overdue e
         = int (length (filter (\<lambda>t. overdueCriterion parse nowStr t \<and> categoryKey t = k) todos))"
    using cc by blast
  have c: "\<forall>k. k \<notin> set inheritedKeys \<longrightarrow>
       (ps_categoryCompletion (computeStats parse zone todos nowStr) k = None)
         = (\<forall>t \<in> set todos. categoryKey t \<noteq> k)"
    using cc by blast
  have obc: "ps_overdueByCategory (computeStats parse zone todos nowStr) k =
     (if k = ascii ''__proto__'' \<or>
         countIn (\<lambda>t. overdueCriterion parse nowStr t \<and> categoryKey t = k) todos = 0 then None
      else if k \<in> set inheritedFunctions then Some Text
      else Some (Count (countIn (\<lambda>t. overdueCriterion parse nowStr t \<and> categoryKey t = k) todos)))" for k
    by (simp add: computeStats_overdueByCategory overdueByCategory_inv countIn_filter crit)
  have d: "\<forall>k n. ps_overdueByCategory (computeStats parse zone todos nowStr) k = Some (Count n) \<longrightarrow>
       n = int (length (filter (\<lambda>t. overdueCriterion parse nowStr t \<and> categoryKey t = k) todos))"
    by (auto simp: obc countIn_def split: if_splits)
  have e: "\<forall>k. k \<notin> set inheritedKeys \<longrightarrow>
       ps_overdueByCategory (computeStats parse zone todos nowStr) k =
         (if \<exists>t \<in> set todos. overdueCriterion parse nowStr t \<and> categoryKey t = k
          then Some (Count (int (length
                 (filter (\<lambda>t. overdueCriterion parse nowStr t \<and> categoryKey t = k) todos))))
          else None)"
    by (auto simp: obc countIn_zero_iff inheritedKeys_def) (auto simp: countIn_def)
  have f: "\<forall>p. ps_overdueByPriority (computeStats parse zone todos nowStr) p =
         (if \<exists>t \<in> set todos. overdueCriterion parse nowStr t \<and> priority t = p
          then Some (int (length
                 (filter (\<lambda>t. overdueCriterion parse nowStr t \<and> priority t = p) todos)))
          else None)"
    by (auto simp: computeStats_overdueByPriority overdueByPriority_inv countIn_filter crit
          countIn_zero_iff) (auto simp: countIn_def)
  show ?thesis using a b c d e f by blast
qed

theorem computeStats_overdue_witness:
  "Date_parse KST [] = None \<and>
   ps_overdue (computeStats (Date_parse KST) KST scenarioA (ascii ''2026-02-17T09:00'')) = 2 \<and>
   map_option cc_overdue
     (ps_categoryCompletion (computeStats (Date_parse KST) KST scenarioA (ascii ''2026-02-17T09:00''))
        (ascii ''work'')) = Some 1 \<and>
   ps_overdueByCategory (computeStats (Date_parse KST) KST scenarioA (ascii ''2026-02-17T09:00''))
     (ascii ''home'') = Some (Count 1) \<and>
   ps_overdueByPriority (computeStats (Date_parse KST) KST scenarioA (ascii ''2026-02-17T09:00''))
     High = Some 1 \<and>
   ps_overdueByPriority (computeStats (Date_parse KST) KST scenarioA (ascii ''2026-02-17T09:00''))
     Low = None"
proof -
  let ?now = "ascii ''2026-02-17T09:00''"
  let ?s = "computeStats (Date_parse KST) KST scenarioA ?now"
  let ?crit = "overdueCriterion (Date_parse KST) ?now"
  have h: "Date_parse KST [] = None"
    by (simp add: parse_eval)
  note T = computeStats_overdue [of "Date_parse KST" KST scenarioA ?now, OF h]
  have late: "filter ?crit scenarioA = [scenarioA ! 4, scenarioA ! 5]"
    by (simp add: scenarioA_def mkTodo_def overdueCriterion_def parse_eval ascii_def KST_def)
  have key4: "categoryKey (scenarioA ! 4) = ascii ''work''"
    and key5: "categoryKey (scenarioA ! 5) = ascii ''home''"
    and pri4: "priority (scenarioA ! 4) = High" and pri5: "priority (scenarioA ! 5) = Medium"
    by (simp_all add: scenarioA_def mkTodo_def categoryKey_def ascii_def)
  have ne: "ascii ''work'' \<noteq> ascii ''home''"
    by (simp add: ascii_def)
  have conj_filter: "filter (\<lambda>t. ?crit t \<and> P t) scenarioA = filter P (filter ?crit scenarioA)" for P
    by (simp add: conj_commute)
  have conj_ex: "(\<exists>t \<in> set scenarioA. ?crit t \<and> P t) = (\<exists>t \<in> set (filter ?crit scenarioA). P t)" for P
    by auto
  have ordinary: "ascii ''work'' \<notin> set inheritedKeys" "ascii ''home'' \<notin> set inheritedKeys"
    by (simp_all add: inheritedKeys_def inheritedFunctions_def ascii_def)
  have a: "ps_overdue ?s = 2"
    using T late by simp
  have "(ps_categoryCompletion ?s (ascii ''work'') = None)
          = (\<forall>t \<in> set scenarioA. categoryKey t \<noteq> ascii ''work'')"
    using T ordinary(1) by blast
  moreover have "scenarioA ! 4 \<in> set scenarioA"
    by (simp add: scenarioA_def)
  ultimately have "ps_categoryCompletion ?s (ascii ''work'') \<noteq> None"
    using key4 by blast
  then obtain e where e: "ps_categoryCompletion ?s (ascii ''work'') = Some e"
    by blast
  have "cc_overdue e = int (length (filter (\<lambda>t. ?crit t \<and> categoryKey t = ascii ''work'') scenarioA))"
    using T e by blast
  then have b: "map_option cc_overdue (ps_categoryCompletion ?s (ascii ''work'')) = Some 1"
    using e ne by (simp add: conj_filter late key4 key5)
  have "ps_overdueByCategory ?s (ascii ''home'') =
         (if \<exists>t \<in> set scenarioA. ?crit t \<and> categoryKey t = ascii ''home''
          then Some (Count (int (length
                 (filter (\<lambda>t. ?crit t \<and> categoryKey t = ascii ''home'') scenarioA))))
          else None)"
    using T ordinary(2) by blast
  then have c: "ps_overdueByCategory ?s (ascii ''home'') = Some (Count 1)"
    using ne by (simp add: conj_filter conj_ex late key4 key5)
  have p: "ps_overdueByPriority ?s p =
         (if \<exists>t \<in> set scenarioA. ?crit t \<and> priority t = p
          then Some (int (length (filter (\<lambda>t. ?crit t \<and> priority t = p) scenarioA)))
          else None)" for p
    using T by blast
  have d: "ps_overdueByPriority ?s High = Some 1" "ps_overdueByPriority ?s Low = None"
    by (simp_all add: p conj_filter conj_ex late pri4 pri5)
  show ?thesis using h a b c d by simp
qed

text \<open>
  Claim C2 says that the criterion of the overdue total governs the per-category counts as
  well, for every list of todos. It does not for a category named like a property of
  \<open>Object.prototype\<close>: the two tables are objects made by \<open>{}\<close>, the lookup of such a name
  finds the inherited function, and the overdue todo of the category \<open>constructor\<close> is
  counted in the total, but \<open>categoryCompletion\<close> gets no entry for it and
  \<open>overdueByCategory\<close> holds a string under its name, where the todo of the category
  \<open>work\<close> beside it is counted in both.
\<close>

theorem computeStats_overdue_inherited_category:
  "filter (overdueCriterion (Date_parse KST) (ascii ''2026-02-17T09:00'')) inheritedCategory
     = inheritedCategory \<and>
   map categoryKey inheritedCategory = [ascii ''constructor'', ascii ''work''] \<and>
   ps_overdue (computeStats (Date_parse KST) KST inheritedCategory (ascii ''2026-02-17T09:00'')) = 2 \<and>
   ps_categoryCompletion
     (computeStats (Date_parse KST) KST inheritedCategory (ascii ''2026-02-17T09:00''))
     (ascii ''work'') = Some \<lparr>cc_total = 1, cc_completed = 0, cc_overdue = 1\<rparr> \<and>
   ps_categoryCompletion
     (computeStats (Date_parse KST) KST inheritedCategory (ascii ''2026-02-17T09:00''))
     (ascii ''constructor'') = None \<and>
   ps_overdueByCategory
     (computeStats (Date_parse KST) KST inheritedCategory (ascii ''2026-02-17T09:00''))
     (ascii ''work'') = Some (Count 1) \<and>
   ps_overdueByCategory
     (computeStats (Date_parse KST) KST inheritedCategory (ascii ''2026-02-17T09:00''))
     (ascii ''constructor'') = Some Text"
proof -
  let ?now = "ascii ''2026-02-17T09:00''"
  let ?P = "Date_parse KST"
  have two: "inheritedCategory = [inheritedCategory ! 0, inheritedCategory ! 1]"
    by (simp add: inheritedCategory_def)
  have now: "?P ?now = Some 1771286400000"
    by (simp add: parse_eval ascii_def KST_def)
  have due: "?P (ascii ''2026-02-16T10:00'') = Some 1771203600000"
    by (simp add: parse_eval ascii_def KST_def)
  have f: "due_at (inheritedCategory ! 0) = Some (ascii ''2026-02-16T10:00'')"
      "due_at (inheritedCategory ! 1) = Some (ascii ''2026-02-16T10:00'')"
      "due_at (inheritedCategory ! Suc 0) = Some (ascii ''2026-02-16T10:00'')"
      "\<not> completed (inheritedCategory ! 0)" "\<not> completed (inheritedCategory ! 1)"
      "\<not> completed (inheritedCategory ! Suc 0)"
    by (simp_all add: inheritedCategory_def mkTodo_def)
  have k: "categoryKey (inheritedCategory ! 0) = ascii ''constructor''"
      "categoryKey (inheritedCategory ! 1) = ascii ''work''"
      "categoryKey (inheritedCategory ! Suc 0) = ascii ''work''"
    by (simp_all add: inheritedCategory_def mkTodo_def categoryKey_def ascii_def)
  have ne: "ascii ''2026-02-16T10:00'' \<noteq> []"
    by (simp add: ascii_def)
  have crit: "overdueCriterion ?P ?now (inheritedCategory ! 0)"
      "overdueCriterion ?P ?now (inheritedCategory ! 1)"
      "overdueCriterion ?P ?now (inheritedCategory ! Suc 0)"
    by (simp_all add: overdueCriterion_def f now due)
  have late: "dueBefore ?P (?P ?now) (inheritedCategory ! 0)"
      "dueBefore ?P (?P ?now) (inheritedCategory ! 1)"
      "dueBefore ?P (?P ?now) (inheritedCategory ! Suc 0)"
    by (simp_all add: dueBefore_def truthy_def Date_lt_def f now due ne)
  have inh: "ascii ''constructor'' \<in> set inheritedKeys" "ascii ''work'' \<notin> set inheritedKeys"
      "ascii ''constructor'' \<in> set inheritedFunctions" "ascii ''work'' \<notin> set inheritedFunctions"
      "ascii ''constructor'' \<noteq> ascii ''__proto__''" "ascii ''work'' \<noteq> ascii ''__proto__''"
      "ascii ''work'' \<noteq> ascii ''constructor''" "ascii ''constructor'' \<noteq> ascii ''work''"
    by (simp_all add: inheritedKeys_def inheritedFunctions_def ascii_def)
  have a: "filter (overdueCriterion ?P ?now) inheritedCategory = inheritedCategory"
    by (subst (1 2) two) (simp add: crit)
  have b: "map categoryKey inheritedCategory = [ascii ''constructor'', ascii ''work'']"
    by (subst two) (simp add: k)
  have c: "ps_overdue (computeStats ?P KST inheritedCategory ?now) = 2"
    unfolding computeStats_overdue_field countIn_def
    by (subst two) (simp add: late)
  have d: "ps_categoryCompletion (computeStats ?P KST inheritedCategory ?now) (ascii ''work'')
        = Some \<lparr>cc_total = 1, cc_completed = 0, cc_overdue = 1\<rparr>"
      "ps_categoryCompletion (computeStats ?P KST inheritedCategory ?now) (ascii ''constructor'')
        = None"
    unfolding computeStats_categoryCompletion
    by (subst two, simp add: categoryStep_def Let_def k f late inh)+
  have e: "ps_overdueByCategory (computeStats ?P KST inheritedCategory ?now) (ascii ''work'')
        = Some (Count 1)"
      "ps_overdueByCategory (computeStats ?P KST inheritedCategory ?now) (ascii ''constructor'')
        = Some Text"
    unfolding computeStats_overdueByCategory
    by (subst two, simp add: overdueCategoryStep_def Let_def k late inh)+
  show ?thesis using a b c d e by (intro conjI)
qed

section \<open>The distributions over the time of day and the day of the week\<close>

lemma WeekDay_range: "0 \<le> WeekDay t \<and> WeekDay t < 7"
  by (simp add: WeekDay_def)

lemma HourFromTime_range: "0 \<le> HourFromTime t \<and> HourFromTime t < 24"
  by (simp add: HourFromTime_def)

lemma timeSlotStep_total:
  "slotTotal (timeSlotStep parse zone ts t) = slotTotal ts + (if truthy (due_at t) then 1 else 0)"
  by (simp add: timeSlotStep_def slotTotal_def truthy_def split: option.splits)

lemma timeSlot_total:
  "slotTotal (foldl (timeSlotStep parse zone) ts todos)
     = slotTotal ts + countIn (\<lambda>t. truthy (due_at t)) todos"
  by (induction todos rule: rev_induct) (simp_all add: timeSlotStep_total countIn_snoc countIn_def)

lemma dayOfWeekStep_length: "length (dayOfWeekStep parse zone counts t) = length counts"
  by (simp add: dayOfWeekStep_def split: option.splits)

lemma dayOfWeek_length: "length (foldl (dayOfWeekStep parse zone) counts todos) = length counts"
  by (induction todos rule: rev_induct) (simp_all add: dayOfWeekStep_length)

lemma sum_list_bump:
  fixes xs :: "int list"
  shows "i < length xs \<Longrightarrow> sum_list (xs[i := xs ! i + 1]) = sum_list xs + 1"
proof (induction xs arbitrary: i)
  case Nil
  then show ?case by simp
next
  case (Cons x xs)
  then show ?case by (cases i) simp_all
qed

lemma dayOfWeekStep_sum:
  assumes "length counts = 7"
  shows "sum_list (dayOfWeekStep parse zone counts t)
     = sum_list counts +
       (if truthy (due_at t) \<and> Option.bind (due_at t) parse \<noteq> None then 1 else 0)"
proof (cases "due_at t")
  case None
  then show ?thesis by (simp add: dayOfWeekStep_def truthy_def)
next
  case (Some s)
  show ?thesis
  proof (cases "parse s")
    case None
    then show ?thesis using Some by (simp add: dayOfWeekStep_def truthy_def getDay_def)
  next
    case (Some u)
    have r: "0 \<le> WeekDay (LocalTime zone u)" "nat (WeekDay (LocalTime zone u)) < 7"
      using WeekDay_range[of "LocalTime zone u"] by auto
    show ?thesis
      using \<open>due_at t = Some s\<close> Some r assms
      by (simp add: dayOfWeekStep_def truthy_def getDay_def sum_list_bump)
  qed
qed

lemma dayOfWeek_sum:
  assumes "length counts = 7"
  shows "sum_list (foldl (dayOfWeekStep parse zone) counts todos)
     = sum_list counts
       + countIn (\<lambda>t. truthy (due_at t) \<and> Option.bind (due_at t) parse \<noteq> None) todos"
proof (induction todos rule: rev_induct)
  case Nil
  show ?case by (simp add: countIn_def)
next
  case (snoc x xs)
  have "length (foldl (dayOfWeekStep parse zone) counts xs) = 7"
    using assms by (simp add: dayOfWeek_length)
  then show ?case
    using snoc.IH by (simp add: dayOfWeekStep_sum countIn_snoc)
qed

lemma countIn_cong: "(\<And>x. x \<in> set xs \<Longrightarrow> P x = Q x) \<Longrightarrow> countIn P xs = countIn Q xs"
  unfolding countIn_def by (metis (mono_tags, lifting) filter_cong)

lemma timeSlotStep_fields:
  "morning (timeSlotStep parse zone ts t) = morning ts +
     (if truthy (due_at t) \<and> (\<exists>h. dueHour parse zone t = Some h \<and> h < 12) then 1 else 0)"
  "afternoon (timeSlotStep parse zone ts t) = afternoon ts +
     (if truthy (due_at t) \<and> (\<exists>h. dueHour parse zone t = Some h \<and> 12 \<le> h \<and> h < 17) then 1 else 0)"
  "evening (timeSlotStep parse zone ts t) = evening ts +
     (if truthy (due_at t) \<and> (\<exists>h. dueHour parse zone t = Some h \<and> 17 \<le> h \<and> h < 21) then 1 else 0)"
  "night (timeSlotStep parse zone ts t) = night ts +
     (if truthy (due_at t) \<and> (\<forall>h. dueHour parse zone t = Some h \<longrightarrow> 21 \<le> h) then 1 else 0)"
  by (auto simp: timeSlotStep_def dueHour_def truthy_def split: option.splits)

lemma timeSlot_fields:
  "morning (foldl (timeSlotStep parse zone) ts todos) = morning ts +
     countIn (\<lambda>t. truthy (due_at t) \<and> (\<exists>h. dueHour parse zone t = Some h \<and> h < 12)) todos"
  "afternoon (foldl (timeSlotStep parse zone) ts todos) = afternoon ts +
     countIn (\<lambda>t. truthy (due_at t) \<and> (\<exists>h. dueHour parse zone t = Some h \<and> 12 \<le> h \<and> h < 17)) todos"
  "evening (foldl (timeSlotStep parse zone) ts todos) = evening ts +
     countIn (\<lambda>t. truthy (due_at t) \<and> (\<exists>h. dueHour parse zone t = Some h \<and> 17 \<le> h \<and> h < 21)) todos"
  "night (foldl (timeSlotStep parse zone) ts todos) = night ts +
     countIn (\<lambda>t. truthy (due_at t) \<and> (\<forall>h. dueHour parse zone t = Some h \<longrightarrow> 21 \<le> h)) todos"
  by (induction todos rule: rev_induct)
     (auto simp: timeSlotStep_fields countIn_snoc countIn_def)

lemma dayOfWeekStep_nth:
  assumes "length counts = 7" "i < 7"
  shows "dayOfWeekStep parse zone counts t ! i = counts ! i +
     (if truthy (due_at t) \<and> dueWeekDay parse zone t = Some (int i) then 1 else 0)"
proof (cases "due_at t")
  case None
  then show ?thesis by (simp add: dayOfWeekStep_def truthy_def)
next
  case (Some s)
  show ?thesis
  proof (cases "parse s")
    case None
    then show ?thesis
      using Some by (simp add: dayOfWeekStep_def truthy_def getDay_def dueWeekDay_def)
  next
    case (Some u)
    have r: "0 \<le> WeekDay (LocalTime zone u)" "nat (WeekDay (LocalTime zone u)) < 7"
      using WeekDay_range[of "LocalTime zone u"] by auto
    show ?thesis
      using \<open>due_at t = Some s\<close> Some r assms
      by (auto simp: dayOfWeekStep_def truthy_def getDay_def dueWeekDay_def nth_list_update)
  qed
qed

lemma dayOfWeek_nth:
  assumes "length counts = 7" "i < 7"
  shows "foldl (dayOfWeekStep parse zone) counts todos ! i = counts ! i +
     countIn (\<lambda>t. truthy (due_at t) \<and> dueWeekDay parse zone t = Some (int i)) todos"
proof (induction todos rule: rev_induct)
  case Nil
  show ?case by (simp add: countIn_def)
next
  case (snoc x xs)
  have "length (foldl (dayOfWeekStep parse zone) counts xs) = 7"
    using assms by (simp add: dayOfWeek_length)
  then show ?case
    using snoc.IH assms(2) by (simp add: dayOfWeekStep_nth countIn_snoc)
qed

lemma computeStats_timeSlotDist:
  "ps_timeSlotDist (computeStats parse zone todos nowStr)
     = foldl (timeSlotStep parse zone) \<lparr>morning = 0, afternoon = 0, evening = 0, night = 0\<rparr> todos"
  by (simp add: computeStats_def Let_def)

lemma computeStats_dayOfWeekDist:
  "ps_dayOfWeekDist (computeStats parse zone todos nowStr)
     = foldl (dayOfWeekStep parse zone) (replicate 7 0) todos"
  by (simp add: computeStats_def Let_def)

lemma length_filter_map: "length (filter (\<lambda>t. P (f t)) xs) = length (filter P (map f xs))"
  by (simp add: filter_map comp_def)

text \<open>
  Claim C10. For every list of todos whose due times, where they are not null, parse to
  valid instants, the four time slots partition the todos that have a due time by its local
  hour (before 12, before 17, before 21, and from 21 on), the seven entries of
  \<open>dayOfWeekDist\<close> partition them by its local day of the week, and so each of the two
  distributions sums to the number of todos with a due time; a todo without one is in
  neither. (\<open>new Date("")\<close> is invalid, which the first hypothesis says of the parser.)
\<close>

theorem computeStats_distributions:
  assumes empty: "parse [] = None"
    and valid: "\<forall>t \<in> set todos. \<forall>s. due_at t = Some s \<longrightarrow> parse s \<noteq> None"
  shows
   "morning (ps_timeSlotDist (computeStats parse zone todos nowStr))
      + afternoon (ps_timeSlotDist (computeStats parse zone todos nowStr))
      + evening (ps_timeSlotDist (computeStats parse zone todos nowStr))
      + night (ps_timeSlotDist (computeStats parse zone todos nowStr))
      = int (length (filter (\<lambda>t. due_at t \<noteq> None) todos)) \<and>
    length (ps_dayOfWeekDist (computeStats parse zone todos nowStr)) = 7 \<and>
    sum_list (ps_dayOfWeekDist (computeStats parse zone todos nowStr))
      = int (length (filter (\<lambda>t. due_at t \<noteq> None) todos)) \<and>
    morning (ps_timeSlotDist (computeStats parse zone todos nowStr))
      = int (length (filter (\<lambda>t. \<exists>h. dueHour parse zone t = Some h \<and> h < 12) todos)) \<and>
    afternoon (ps_timeSlotDist (computeStats parse zone todos nowStr))
      = int (length (filter (\<lambda>t. \<exists>h. dueHour parse zone t = Some h \<and> 12 \<le> h \<and> h < 17) todos)) \<and>
    evening (ps_timeSlotDist (computeStats parse zone todos nowStr))
      = int (length (filter (\<lambda>t. \<exists>h. dueHour parse zone t = Some h \<and> 17 \<le> h \<and> h < 21) todos)) \<and>
    night (ps_timeSlotDist (computeStats parse zone todos nowStr))
      = int (length (filter (\<lambda>t. \<exists>h. dueHour parse zone t = Some h \<and> 21 \<le> h) todos)) \<and>
    (\<forall>i < 7. ps_dayOfWeekDist (computeStats parse zone todos nowStr) ! i
      = int (length (filter (\<lambda>t. dueWeekDay parse zone t = Some (int i)) todos)))"
proof -
  let ?ts = "ps_timeSlotDist (computeStats parse zone todos nowStr)"
  let ?dw = "ps_dayOfWeekDist (computeStats parse zone todos nowStr)"
  have tr: "truthy (due_at t) \<longleftrightarrow> due_at t \<noteq> None" if "t \<in> set todos" for t
    using that empty valid by (cases "due_at t") (auto simp: truthy_def)
  have ok: "Option.bind (due_at t) parse \<noteq> None \<longleftrightarrow> due_at t \<noteq> None" if "t \<in> set todos" for t
    using that valid by (cases "due_at t") auto
  have hr: "dueHour parse zone t = None \<longleftrightarrow> due_at t = None" if "t \<in> set todos" for t
    using that valid by (cases "due_at t") (auto simp: dueHour_def getHours_def)
  have wd: "dueWeekDay parse zone t = None \<longleftrightarrow> due_at t = None" if "t \<in> set todos" for t
    using that valid by (cases "due_at t") (auto simp: dueWeekDay_def getDay_def)
  have "slotTotal ?ts = countIn (\<lambda>t. truthy (due_at t)) todos"
    by (simp add: computeStats_timeSlotDist timeSlot_total) (simp add: slotTotal_def)
  also have "\<dots> = countIn (\<lambda>t. due_at t \<noteq> None) todos"
    by (rule countIn_cong) (rule tr)
  finally have a: "morning ?ts + afternoon ?ts + evening ?ts + night ?ts
      = int (length (filter (\<lambda>t. due_at t \<noteq> None) todos))"
    by (simp add: slotTotal_def countIn_def)
  have b: "length ?dw = 7"
    by (simp add: computeStats_dayOfWeekDist dayOfWeek_length)
  have "sum_list ?dw
      = countIn (\<lambda>t. truthy (due_at t) \<and> Option.bind (due_at t) parse \<noteq> None) todos"
    by (simp add: computeStats_dayOfWeekDist dayOfWeek_sum sum_list_replicate)
  also have "\<dots> = countIn (\<lambda>t. due_at t \<noteq> None) todos"
    by (rule countIn_cong) (use tr ok in blast)
  finally have c: "sum_list ?dw = int (length (filter (\<lambda>t. due_at t \<noteq> None) todos))"
    by (simp add: countIn_def)
  have "morning ?ts
      = countIn (\<lambda>t. truthy (due_at t) \<and> (\<exists>h. dueHour parse zone t = Some h \<and> h < 12)) todos"
    by (simp add: computeStats_timeSlotDist timeSlot_fields)
  also have "\<dots> = countIn (\<lambda>t. \<exists>h. dueHour parse zone t = Some h \<and> h < 12) todos"
    by (rule countIn_cong) (use tr hr in fastforce)
  finally have d: "morning ?ts
      = int (length (filter (\<lambda>t. \<exists>h. dueHour parse zone t = Some h \<and> h < 12) todos))"
    by (simp add: countIn_def)
  have "afternoon ?ts
      = countIn (\<lambda>t. truthy (due_at t) \<and> (\<exists>h. dueHour parse zone t = Some h \<and> 12 \<le> h \<and> h < 17)) todos"
    by (simp add: computeStats_timeSlotDist timeSlot_fields)
  also have "\<dots> = countIn (\<lambda>t. \<exists>h. dueHour parse zone t = Some h \<and> 12 \<le> h \<and> h < 17) todos"
    by (rule countIn_cong) (use tr hr in fastforce)
  finally have e: "afternoon ?ts
      = int (length (filter (\<lambda>t. \<exists>h. dueHour parse zone t = Some h \<and> 12 \<le> h \<and> h < 17) todos))"
    by (simp add: countIn_def)
  have "evening ?ts
      = countIn (\<lambda>t. truthy (due_at t) \<and> (\<exists>h. dueHour parse zone t = Some h \<and> 17 \<le> h \<and> h < 21)) todos"
    by (simp add: computeStats_timeSlotDist timeSlot_fields)
  also have "\<dots> = countIn (\<lambda>t. \<exists>h. dueHour parse zone t = Some h \<and> 17 \<le> h \<and> h < 21) todos"
    by (rule countIn_cong) (use tr hr in fastforce)
  finally have f: "evening ?ts
      = int (length (filter (\<lambda>t. \<exists>h. dueHour parse zone t = Some h \<and> 17 \<le> h \<and> h < 21) todos))"
    by (simp add: countIn_def)
  have "night ?ts
      = countIn (\<lambda>t. truthy (due_at t) \<and> (\<forall>h. dueHour parse zone t = Some h \<longrightarrow> 21 \<le> h)) todos"
    by (simp add: computeStats_timeSlotDist timeSlot_fields)
  also have "\<dots> = countIn (\<lambda>t. \<exists>h. dueHour parse zone t = Some h \<and> 21 \<le> h) todos"
  proof (rule countIn_cong)
    fix t assume t: "t \<in> set todos"
    show "(truthy (due_at t) \<and> (\<forall>h. dueHour parse zone t = Some h \<longrightarrow> 21 \<le> h))
        = (\<exists>h. dueHour parse zone t = Some h \<and> 21 \<le> h)"
      using tr[OF t] hr[OF t] by (cases "dueHour parse zone t") auto
  qed
  finally have g: "night ?ts
      = int (length (filter (\<lambda>t. \<exists>h. dueHour parse zone t = Some h \<and> 21 \<le> h) todos))"
    by (simp add: countIn_def)
  have h: "?dw ! i = int (length (filter (\<lambda>t. dueWeekDay parse zone t = Some (int i)) todos))"
    if "i < 7" for i
  proof -
    have "?dw ! i = countIn (\<lambda>t. truthy (due_at t) \<and> dueWeekDay parse zone t = Some (int i)) todos"
      using that by (simp add: computeStats_dayOfWeekDist dayOfWeek_nth)
    also have "\<dots> = countIn (\<lambda>t. dueWeekDay parse zone t = Some (int i)) todos"
      by (rule countIn_cong) (use tr wd in fastforce)
    finally show ?thesis by (simp add: countIn_def)
  qed
  show ?thesis using a b c d e f g h by blast
qed

theorem computeStats_distributions_witness:
  "Date_parse KST [] = None \<and>
   list_all (\<lambda>t. case due_at t of None \<Rightarrow> True | Some s \<Rightarrow> Date_parse KST s \<noteq> None) scenarioA \<and>
   morning (ps_timeSlotDist (computeStats (Date_parse KST) KST scenarioA (ascii ''2026-02-17T09:00''))) = 4 \<and>
   afternoon (ps_timeSlotDist (computeStats (Date_parse KST) KST scenarioA (ascii ''2026-02-17T09:00''))) = 1 \<and>
   evening (ps_timeSlotDist (computeStats (Date_parse KST) KST scenarioA (ascii ''2026-02-17T09:00''))) = 1 \<and>
   night (ps_timeSlotDist (computeStats (Date_parse KST) KST scenarioA (ascii ''2026-02-17T09:00''))) = 2 \<and>
   sum_list (ps_dayOfWeekDist (computeStats (Date_parse KST) KST scenarioA (ascii ''2026-02-17T09:00''))) = 8 \<and>
   ps_dayOfWeekDist (computeStats (Date_parse KST) KST scenarioA (ascii ''2026-02-17T09:00'')) ! 2 = 4"
proof -
  let ?now = "ascii ''2026-02-17T09:00''"
  let ?s = "computeStats (Date_parse KST) KST scenarioA ?now"
  have h: "Date_parse KST [] = None"
    by (simp add: parse_eval)
  have v: "\<forall>t \<in> set scenarioA. \<forall>s. due_at t = Some s \<longrightarrow> Date_parse KST s \<noteq> None"
    by (simp add: scenarioA_def mkTodo_def parse_eval ascii_def KST_def)
  then have v': "list_all (\<lambda>t. case due_at t of None \<Rightarrow> True | Some s \<Rightarrow> Date_parse KST s \<noteq> None) scenarioA"
    by (auto simp: list_all_iff split: option.splits)
  note T = computeStats_distributions [of "Date_parse KST" scenarioA KST ?now, OF h v]
  have hours: "map (dueHour (Date_parse KST) KST) scenarioA =
      [Some 10, None, Some 8, Some 18, Some 23, Some 8, Some 9, Some 21, None, Some 12]"
    by (simp add: scenarioA_def mkTodo_def dueHour_def parse_eval date_eval ascii_def KST_def)
  have days: "map (dueWeekDay (Date_parse KST) KST) scenarioA =
      [Some 1, None, Some 2, Some 5, Some 1, Some 2, Some 2, Some 2, None, Some 0]"
    by (simp add: scenarioA_def mkTodo_def dueWeekDay_def parse_eval date_eval ascii_def KST_def)
  let ?h = "dueHour (Date_parse KST) KST"
  let ?d = "dueWeekDay (Date_parse KST) KST"
  have due: "length (filter (\<lambda>t. due_at t \<noteq> None) scenarioA) = 8"
    by (simp add: scenarioA_def mkTodo_def)
  have m: "length (filter (\<lambda>t. \<exists>h. ?h t = Some h \<and> h < 12) scenarioA) = 4"
    using length_filter_map [of "\<lambda>d. \<exists>h. d = Some h \<and> h < 12" ?h scenarioA]
    by (simp add: hours)
  have af: "length (filter (\<lambda>t. \<exists>h. ?h t = Some h \<and> 12 \<le> h \<and> h < 17) scenarioA) = 1"
    using length_filter_map [of "\<lambda>d. \<exists>h. d = Some h \<and> 12 \<le> h \<and> h < 17" ?h scenarioA]
    by (simp add: hours)
  have ev: "length (filter (\<lambda>t. \<exists>h. ?h t = Some h \<and> 17 \<le> h \<and> h < 21) scenarioA) = 1"
    using length_filter_map [of "\<lambda>d. \<exists>h. d = Some h \<and> 17 \<le> h \<and> h < 21" ?h scenarioA]
    by (simp add: hours)
  have ni: "length (filter (\<lambda>t. \<exists>h. ?h t = Some h \<and> 21 \<le> h) scenarioA) = 2"
    using length_filter_map [of "\<lambda>d. \<exists>h. d = Some h \<and> 21 \<le> h" ?h scenarioA]
    by (simp add: hours)
  have tu: "length (filter (\<lambda>t. ?d t = Some (int 2)) scenarioA) = 4"
    using length_filter_map [of "\<lambda>d. d = Some (int 2)" ?d scenarioA]
    by (simp add: days)
  have a: "morning (ps_timeSlotDist ?s) = 4"
    using T m by simp
  have b: "afternoon (ps_timeSlotDist ?s) = 1"
    using T af by simp
  have c: "evening (ps_timeSlotDist ?s) = 1"
    using T ev by simp
  have d: "night (ps_timeSlotDist ?s) = 2"
    using T ni by simp
  have e: "sum_list (ps_dayOfWeekDist ?s) = 8"
    using T due by simp
  have "ps_dayOfWeekDist ?s ! 2 = int (length (filter (\<lambda>t. ?d t = Some (int 2)) scenarioA))"
    using T by simp
  then have f: "ps_dayOfWeekDist ?s ! 2 = 4"
    using tu by simp
  show ?thesis using h v' a b c d e f by simp
qed

section \<open>The validation of the summarize route\<close>

lemma catchBlock_caught: "\<exists>e st. catchBlock message = SummarizeCaught e st \<and> st \<noteq> 400"
  by (simp add: catchBlock_def)

lemma typedTodos_Typed: "typedTodos (map Typed ts) = Some ts"
  by (induction ts) (simp_all add: typedTodos_def)

lemma computeStats_now: "ps_now (computeStats parse zone todos nowStr) = parse nowStr"
  by (simp add: computeStats_def Let_def)

lemma POST_summarize_value:
  "POST_summarize parse zone clock (JsonValue body) =
     (case req_todos body of
        None \<Rightarrow> SummarizeErrorResponse BadTodos 400
      | Some todos \<Rightarrow>
          if \<not> validPeriod (req_period body) then SummarizeErrorResponse BadPeriod 400
          else if length todos = 0 then SummarizeErrorResponse NoTodos 400
          else if length todos > 200 then SummarizeErrorResponse TooManyTodos 400
          else (case (typedTodos todos, referenceText clock body) of
                  (Some typed, Some nowStr) \<Rightarrow>
                    if parse nowStr = None then catchBlock invalidTimeMessage
                    else SummarizeGenerate (computeStats parse zone typed nowStr)
                           (case req_period body of JString p \<Rightarrow> p | JOther \<Rightarrow> [])
                | _ \<Rightarrow> SummarizeUntyped))"
  by (simp add: POST_summarize_def validPeriod_def Let_def computeStats_now
      split: option.splits)

text \<open>
  Claim C9, for a request whose body is JSON and not \<open>null\<close>. The summarize route validates
  before it calls the model: when \<open>todos\<close> is not an array, or the period is neither
  \<open>today\<close> nor \<open>week\<close>, or the array is empty, or it has more than 200 items, the handler
  answers with an error payload and status 400; with a valid period an empty array gets the
  message that there is nothing to analyse and an array of more than 200 items the message
  about the limit of 200. With a valid period and 1 to 200 items the validation passes: the
  answer is not one of the validation, and the handler calls the model with the statistics
  when the todos and the reference time are of their declared types and the reference time
  is a valid date. Whatever the body, the validation answers with no status but 400 and only
  invalid input, and the model is called only on valid input.
\<close>

theorem POST_summarize_validation:
  "(summarizeInvalid body \<longrightarrow>
      (\<exists>e. POST_summarize parse zone clock (JsonValue body) = SummarizeErrorResponse e 400)) \<and>
   (req_todos body = None \<longrightarrow>
      POST_summarize parse zone clock (JsonValue body) = SummarizeErrorResponse BadTodos 400) \<and>
   (\<forall>todos. req_todos body = Some todos \<and> \<not> validPeriod (req_period body) \<longrightarrow>
      POST_summarize parse zone clock (JsonValue body) = SummarizeErrorResponse BadPeriod 400) \<and>
   (\<forall>todos. req_todos body = Some todos \<and> validPeriod (req_period body) \<and> length todos = 0 \<longrightarrow>
      POST_summarize parse zone clock (JsonValue body) = SummarizeErrorResponse NoTodos 400) \<and>
   (\<forall>todos. req_todos body = Some todos \<and> validPeriod (req_period body) \<and> length todos > 200 \<longrightarrow>
      POST_summarize parse zone clock (JsonValue body) = SummarizeErrorResponse TooManyTodos 400) \<and>
   (\<forall>todos. req_todos body = Some todos \<and> validPeriod (req_period body) \<and>
        1 \<le> length todos \<and> length todos \<le> 200 \<longrightarrow>
      (\<forall>e st. POST_summarize parse zone clock (JsonValue body) \<noteq> SummarizeErrorResponse e st) \<and>
      (\<forall>typed nowStr. typedTodos todos = Some typed \<and> referenceText clock body = Some nowStr \<and>
           parse nowStr \<noteq> None \<longrightarrow>
         POST_summarize parse zone clock (JsonValue body)
           = SummarizeGenerate (computeStats parse zone typed nowStr)
               (case req_period body of JString p \<Rightarrow> p | JOther \<Rightarrow> []))) \<and>
   (\<forall>request e st. POST_summarize parse zone clock request = SummarizeErrorResponse e st \<longrightarrow>
      st = 400 \<and> (\<exists>body'. request = JsonValue body' \<and> summarizeInvalid body')) \<and>
   (\<forall>request stats p. POST_summarize parse zone clock request = SummarizeGenerate stats p \<longrightarrow>
      (\<exists>body'. request = JsonValue body' \<and> \<not> summarizeInvalid body'))"
proof -
  have v: "\<And>b. \<exists>e st. catchBlock b = SummarizeCaught e st"
    using catchBlock_caught by blast
  have a: "\<forall>request e st. POST_summarize parse zone clock request = SummarizeErrorResponse e st \<longrightarrow>
      st = 400 \<and> (\<exists>body'. request = JsonValue body' \<and> summarizeInvalid body')"
  proof (intro allI impI)
    fix request e st
    assume r: "POST_summarize parse zone clock request = SummarizeErrorResponse e st"
    show "st = 400 \<and> (\<exists>body'. request = JsonValue body' \<and> summarizeInvalid body')"
    proof (cases request)
      case (NotJson m)
      then show ?thesis using r v [of m] by (auto simp: POST_summarize_def)
    next
      case JsonNull
      then show ?thesis using r v [of destructureNullMessage] by (auto simp: POST_summarize_def)
    next
      case (JsonValue b)
      then show ?thesis
        using r v [of invalidTimeMessage] unfolding JsonValue POST_summarize_value
        by (auto simp: summarizeInvalid_def split: option.splits if_splits)
    qed
  qed
  have b: "\<forall>request stats p. POST_summarize parse zone clock request = SummarizeGenerate stats p \<longrightarrow>
      (\<exists>body'. request = JsonValue body' \<and> \<not> summarizeInvalid body')"
  proof (intro allI impI)
    fix request stats p
    assume r: "POST_summarize parse zone clock request = SummarizeGenerate stats p"
    show "\<exists>body'. request = JsonValue body' \<and> \<not> summarizeInvalid body'"
    proof (cases request)
      case (NotJson m)
      then show ?thesis using r v [of m] by (auto simp: POST_summarize_def)
    next
      case JsonNull
      then show ?thesis using r v [of destructureNullMessage] by (auto simp: POST_summarize_def)
    next
      case (JsonValue b)
      then show ?thesis
        using r v [of invalidTimeMessage] unfolding JsonValue POST_summarize_value
        by (auto simp: summarizeInvalid_def split: option.splits if_splits)
    qed
  qed
  have c: "summarizeInvalid body \<longrightarrow>
      (\<exists>e. POST_summarize parse zone clock (JsonValue body) = SummarizeErrorResponse e 400)"
    unfolding POST_summarize_value
    by (auto simp: summarizeInvalid_def split: option.splits)
  have d: "\<forall>todos. req_todos body = Some todos \<and> validPeriod (req_period body) \<and>
        1 \<le> length todos \<and> length todos \<le> 200 \<longrightarrow>
      (\<forall>e st. POST_summarize parse zone clock (JsonValue body) \<noteq> SummarizeErrorResponse e st) \<and>
      (\<forall>typed nowStr. typedTodos todos = Some typed \<and> referenceText clock body = Some nowStr \<and>
           parse nowStr \<noteq> None \<longrightarrow>
         POST_summarize parse zone clock (JsonValue body)
           = SummarizeGenerate (computeStats parse zone typed nowStr)
               (case req_period body of JString p \<Rightarrow> p | JOther \<Rightarrow> []))"
    using v [of invalidTimeMessage] unfolding POST_summarize_value
    by (auto split: option.splits)
  show ?thesis
    using a b c d by (simp add: POST_summarize_value)
qed

theorem POST_summarize_validation_witness:
  "POST_summarize (Date_parse KST) KST (ascii ''2026-02-17T00:00'')
       (JsonValue (summarizeBody [] ''today'' ''2026-02-17T09:00''))
     = SummarizeErrorResponse NoTodos 400 \<and>
   POST_summarize (Date_parse KST) KST (ascii ''2026-02-17T00:00'')
       (JsonValue (summarizeBody (replicate 201 (mkTodo False None Medium None)) ''week''
          ''2026-02-17T09:00''))
     = SummarizeErrorResponse TooManyTodos 400 \<and>
   POST_summarize (Date_parse KST) KST (ascii ''2026-02-17T00:00'')
       (JsonValue (summarizeBody scenarioA ''month'' ''2026-02-17T09:00''))
     = SummarizeErrorResponse BadPeriod 400 \<and>
   POST_summarize (Date_parse KST) KST (ascii ''2026-02-17T00:00'')
       (JsonValue (summarizeBody scenarioA ''week'' ''2026-02-17T09:00''))
     = SummarizeGenerate (computeStats (Date_parse KST) KST scenarioA (ascii ''2026-02-17T09:00''))
         (ascii ''week'')"
proof -
  let ?post = "POST_summarize (Date_parse KST) KST (ascii ''2026-02-17T00:00'')"
  have p: "validPeriod (JString (ascii ''today''))" "validPeriod (JString (ascii ''week''))"
    "\<not> validPeriod (JString (ascii ''month''))"
    by (simp_all add: validPeriod_def ascii_def)
  have n: "ascii ''2026-02-17T09:00'' \<noteq> []"
    by (simp add: ascii_def)
  have v: "Date_parse KST (ascii ''2026-02-17T09:00'') \<noteq> None"
    by (simp add: parse_eval ascii_def KST_def)
  have a: "?post (JsonValue (summarizeBody [] ''today'' ''2026-02-17T09:00''))
      = SummarizeErrorResponse NoTodos 400"
    using POST_summarize_validation [of "summarizeBody [] ''today'' ''2026-02-17T09:00''"
        "Date_parse KST" KST "ascii ''2026-02-17T00:00''"] p
    by (simp add: summarizeBody_def)
  have b: "?post (JsonValue (summarizeBody (replicate 201 (mkTodo False None Medium None)) ''week''
        ''2026-02-17T09:00''))
      = SummarizeErrorResponse TooManyTodos 400"
    using POST_summarize_validation [of
        "summarizeBody (replicate 201 (mkTodo False None Medium None)) ''week'' ''2026-02-17T09:00''"
        "Date_parse KST" KST "ascii ''2026-02-17T00:00''"] p
    by (simp add: summarizeBody_def)
  have c: "?post (JsonValue (summarizeBody scenarioA ''month'' ''2026-02-17T09:00''))
      = SummarizeErrorResponse BadPeriod 400"
    using POST_summarize_validation [of "summarizeBody scenarioA ''month'' ''2026-02-17T09:00''"
        "Date_parse KST" KST "ascii ''2026-02-17T00:00''"] p
    by (simp add: summarizeBody_def)
  have l: "1 \<le> length scenarioA" "length scenarioA \<le> 200"
    by (simp_all add: scenarioA_def)
  have d: "?post (JsonValue (summarizeBody scenarioA ''week'' ''2026-02-17T09:00''))
      = SummarizeGenerate (computeStats (Date_parse KST) KST scenarioA (ascii ''2026-02-17T09:00''))
          (ascii ''week'')"
    using POST_summarize_validation [of "summarizeBody scenarioA ''week'' ''2026-02-17T09:00''"
        "Date_parse KST" KST "ascii ''2026-02-17T00:00''"] p l v n
    by (simp add: summarizeBody_def referenceText_def typedTodos_Typed)
  show ?thesis using a b c d by (intro conjI)
qed

text \<open>
  A body that is \<open>null\<close> has no array of todos, but the handler does not come to its
  validation: taking the properties of \<open>null\<close> throws, and the \<open>catch\<close> block answers with
  status 500.
\<close>

theorem POST_summarize_null_body:
  "requestInvalid JsonNull \<and>
   POST_summarize (Date_parse KST) KST (ascii ''2026-02-17T00:00'') JsonNull
     = SummarizeCaught AnalysisError 500"
  by (simp add: requestInvalid_def POST_summarize_def catchBlock_def destructureNullMessage_def
      ascii_def)

text \<open>
  A request that passes the validation does not reach the model when its reference time is
  not a valid date: \<open>toISOString\<close> throws while the prompt is built.
\<close>

lemma POST_summarize_invalid_reference_time:
  "POST_summarize (Date_parse KST) KST (ascii ''2026-02-17T00:00'')
       (JsonValue (summarizeBody scenarioA ''week'' ''soon''))
     = SummarizeCaught AnalysisError 500"
proof -
  have p: "validPeriod (JString (ascii ''week''))"
    by (simp add: validPeriod_def)
  have v: "Date_parse KST (ascii ''soon'') = None"
    by (simp add: parse_eval ascii_def)
  have n: "ascii ''soon'' \<noteq> []"
    by (simp add: ascii_def)
  have c: "catchBlock invalidTimeMessage = SummarizeCaught AnalysisError 500"
    by (simp add: catchBlock_def invalidTimeMessage_def ascii_def)
  have l: "scenarioA \<noteq> []" "\<not> 200 < length scenarioA"
    by (simp_all add: scenarioA_def)
  show ?thesis
    unfolding POST_summarize_value
    using p v n c l by (simp add: summarizeBody_def referenceText_def typedTodos_Typed)
qed

section \<open>The sanitizer\<close>

lemmas sanitizer_eval = ascii_def trim_def isWhiteSpace_def MIN_LENGTH_def MAX_LENGTH_def
  RegExp_test_def isDangerous_def isEmojiCodePoint_def isHighSurrogate_def isLowSurrogate_def
  codePoint_def invalid_def valid_def preprocessText_def toHalfWidth_def Let_def

text \<open>
  From a fresh module, where \<open>lastIndex\<close> is 0, the test of the dangerous characters
  searches the whole text, and a text with such a character is rejected. A call that
  accepts its text leaves \<open>lastIndex\<close> at 0; a call that rejects one for a dangerous
  character leaves it behind that character.
\<close>

lemma RegExp_test_fresh:
  "RegExp_test cls 0 s = (if \<exists>c \<in> set s. cls c
       then (True, length (takeWhile (\<lambda>c. \<not> cls c) s) + 1) else (False, 0))"
proof (cases "dropWhile (\<lambda>c. \<not> cls c) s")
  case Nil
  have "\<forall>c \<in> set s. \<not> cls c"
    using Nil by (simp add: dropWhile_eq_Nil_conv)
  then have "\<not> (\<exists>c \<in> set s. cls c)"
    by blast
  then show ?thesis
    by (simp add: RegExp_test_def Nil)
next
  case (Cons a as)
  have "\<exists>c \<in> set s. cls c"
    using Cons by (metis dropWhile_eq_Nil_conv list.distinct(1))
  then show ?thesis
    by (simp add: RegExp_test_def Cons)
qed

lemma validateInput_fresh_rejects:
  assumes "\<exists>c \<in> set (trim s). isDangerous c"
  shows "\<not> ok (fst (validateInput 0 (JString s)))"
  using assms
  by (auto simp: RegExp_test_fresh Let_def invalid_def split: if_splits)

lemma validateInput_ok_resets:
  assumes "validateInput lastIndex x = (r, lastIndex')" and "ok r"
  shows "lastIndex' = 0"
  using assms
  by (cases x)
     (auto simp: Let_def invalid_def valid_def RegExp_test_def split: if_splits list.splits prod.splits)

text \<open>
  Claim C5 says that \<open>validate\<close> is a function of its argument alone. It is not: the
  regular expression has the flag \<open>g\<close>, so \<open>test\<close> starts at the \<open>lastIndex\<close> that the
  call before left. Two calls in a row on \<open>ab<\<close> give a rejection and then an acceptance;
  \<open><b>go home\<close> is rejected by a fresh module and accepted after a call on \<open>ab<\<close>.
\<close>

theorem validateInput_depends_on_history:
  "validateAll 0 [JString (ascii ''ab<''), JString (ascii ''ab<'')]
     = ([invalid DangerousChars, valid], 0) \<and>
   validateAll 0 [JString (ascii ''<b>go home'')] = ([invalid DangerousChars], 1) \<and>
   validateAll 0 [JString (ascii ''ab<''), JString (ascii ''<b>go home'')]
     = ([invalid DangerousChars, valid], 0)"
  by (simp add: sanitizer_eval)

text \<open>
  Claim C8 says that every text whose trimmed form has a dangerous character fails the
  validation, so that the route answers 400 and the text does not reach the model. After
  a request that was rejected for a dangerous character, the next request passes the
  validation with \<open><\<close> and \<open>>\<close> in its text, and the handler calls the model with the
  cleaned text. (The defect is the one of claim C5.)
\<close>

theorem POST_parse_dangerous_text_passes:
  "POST_parse_all (ascii ''2026-02-17T00:00'') 0 [parseBody ''ab<'', parseBody ''<b>go home'']
     = ([ErrorResponse (Invalid (Some DangerousChars)) 400,
         GenerateObject (ascii ''bgo home'') (ascii ''2026-02-17T09:00'')], 0) \<and>
   (\<exists>c \<in> set (trim (ascii ''<b>go home'')). isDangerous c)"
  by (simp add: POST_parse_def parseBody_def sanitizer_eval)

text \<open>
  Claim C3 says that preprocessing is idempotent on valid input. Two valid inputs on which
  it is not: in \<open>a\<close>, space, U+2600, space, \<open>b\<close> the emoji goes after the white space has
  been collapsed, which leaves two spaces that a second pass collapses; in \<open>a\<close>, U+FF1C,
  \<open>b\<close> the full-width sign becomes \<open><\<close> after the dangerous characters have been removed,
  and a second pass removes it.
\<close>

theorem preprocessText_not_idempotent:
  "validateInput 0 (JString [0x61, 0x20, 0x2600, 0x20, 0x62]) = (valid, 0) \<and>
   preprocessText [0x61, 0x20, 0x2600, 0x20, 0x62] = [0x61, 0x20, 0x20, 0x62] \<and>
   preprocessText (preprocessText [0x61, 0x20, 0x2600, 0x20, 0x62]) = [0x61, 0x20, 0x62] \<and>
   validateInput 0 (JString [0x61, 0xFF1C, 0x62]) = (valid, 0) \<and>
   preprocessText [0x61, 0xFF1C, 0x62] = [0x61, 0x3C, 0x62] \<and>
   preprocessText (preprocessText [0x61, 0xFF1C, 0x62]) = [0x61, 0x62]"
  by (simp add: sanitizer_eval)

section \<open>The calendar\<close>

lemma div_bounds: "c > 0 \<Longrightarrow> c * (a div c) \<le> (a::int) \<and> a < c * (a div c) + c"
  by (metis mult.commute pos_mod_bound pos_mod_sign div_mult_mod_eq add_le_cancel_left
      add_less_cancel_left add.right_neutral)

lemma div_step:
  assumes "0 < c"
  shows "((a::int) + 1) div c = a div c + (if (a + 1) mod c = 0 then 1 else 0)"
proof -
  define q r where "q = a div c" and "r = a mod c"
  have a: "a = c * q + r" and r: "0 \<le> r" "r < c"
    using assms by (simp_all add: q_def r_def)
  show ?thesis
  proof (cases "r + 1 = c")
    case True
    have "a + 1 = c * (q + 1) + 0" using a True by (simp add: algebra_simps)
    then have "(a + 1) div c = q + 1" "(a + 1) mod c = 0"
      using assms by (metis int_div_pos_eq order_refl, metis int_mod_pos_eq order_refl)
    then show ?thesis by (simp add: q_def)
  next
    case False
    have e: "a + 1 = c * q + (r + 1)" using a by simp
    have "(a + 1) div c = q" "(a + 1) mod c = r + 1"
      using int_div_pos_eq[OF e] int_mod_pos_eq[OF e] r False by auto
    then show ?thesis using r by (simp add: q_def)
  qed
qed

lemma DayFromYear_bounds:
  "400 * DayFromYear (1970 + w) < 146097 * w + 593 \<and>
   146097 * w - 607 < 400 * DayFromYear (1970 + w)"
proof -
  define a b c where "a = (w + 1) div 4" and "b = (w + 69) div 100"
    and "c = (w + 369) div 400"
  have a: "4 * a \<le> w + 1 \<and> w + 1 < 4 * a + 4"
    unfolding a_def by (rule div_bounds) simp
  have b: "100 * b \<le> w + 69 \<and> w + 69 < 100 * b + 100"
    unfolding b_def by (rule div_bounds) simp
  have c: "400 * c \<le> w + 369 \<and> w + 369 < 400 * c + 400"
    unfolding c_def by (rule div_bounds) simp
  have "DayFromYear (1970 + w) = 365 * w + a - b + c"
    by (simp add: DayFromYear_def a_def b_def c_def add.commute)
  then show ?thesis using a b c by linarith
qed

lemma DayFromYear_strict_mono: "y < y' \<Longrightarrow> DayFromYear y < DayFromYear y'"
proof -
  assume less: "y < y'"
  define w w' where "w = y - 1970" and "w' = y' - 1970"
  define u v where "u = DayFromYear (1970 + w)" and "v = DayFromYear (1970 + w')"
  have "w + 1 \<le> w'" using less by (simp add: w_def w'_def)
  moreover have "400 * u < 146097 * w + 593" "146097 * w' - 607 < 400 * v"
    using DayFromYear_bounds[of w] DayFromYear_bounds[of w'] by (simp_all add: u_def v_def)
  ultimately have "u < v" by linarith
  then show ?thesis by (simp add: u_def v_def w_def w'_def)
qed

lemma DayFromYear_mono: "y \<le> y' \<Longrightarrow> DayFromYear y \<le> DayFromYear y'"
  using DayFromYear_strict_mono[of y y'] by (cases "y = y'") auto

lemma mod_sub_mult: "((a::int) - c * k) mod c = a mod c"
proof -
  have "(a - c * k) mod c = (a - (c * k) mod c) mod c"
    by (simp only: mod_diff_right_eq)
  also have "\<dots> = a mod c" by simp
  finally show ?thesis .
qed

lemma mod_400_100: "(y::int) mod 400 = 0 \<Longrightarrow> y mod 100 = 0"
proof -
  assume "y mod 400 = 0"
  then have "400 dvd y" by (simp add: dvd_eq_mod_eq_0)
  moreover have "(100::int) dvd 400" by simp
  ultimately have "100 dvd y" by (rule dvd_trans[rotated])
  then show ?thesis by (simp add: dvd_eq_mod_eq_0)
qed

lemma mod_100_4: "(y::int) mod 100 = 0 \<Longrightarrow> y mod 4 = 0"
proof -
  assume "y mod 100 = 0"
  then have "100 dvd y" by (simp add: dvd_eq_mod_eq_0)
  moreover have "(4::int) dvd 100" by simp
  ultimately have "4 dvd y" by (rule dvd_trans[rotated])
  then show ?thesis by (simp add: dvd_eq_mod_eq_0)
qed

lemma DayFromYear_Suc: "DayFromYear (y + 1) = DayFromYear y + DaysInYear y"
proof -
  have s4: "y - 1969 + 1 = y - 4 * 492" and s100: "y - 1901 + 1 = y - 100 * 19"
    and s400: "y - 1601 + 1 = y - 400 * 4"
    by simp_all
  have a: "(y - 1969 + 1) div 4 = (y - 1969) div 4 + (if y mod 4 = 0 then 1 else 0)"
    using div_step[of 4 "y - 1969"] by (simp only: s4 mod_sub_mult)
  have b: "(y - 1901 + 1) div 100 = (y - 1901) div 100 + (if y mod 100 = 0 then 1 else 0)"
    using div_step[of 100 "y - 1901"] by (simp only: s100 mod_sub_mult)
  have c: "(y - 1601 + 1) div 400 = (y - 1601) div 400 + (if y mod 400 = 0 then 1 else 0)"
    using div_step[of 400 "y - 1601"] by (simp only: s400 mod_sub_mult)
  have e: "y + 1 - 1969 = y - 1969 + 1" "y + 1 - 1901 = y - 1901 + 1"
    "y + 1 - 1601 = y - 1601 + 1" "y + 1 - 1970 = y - 1970 + 1"
    by simp_all
  have "DayFromYear (y + 1) = DayFromYear y + 365 + (if y mod 4 = 0 then 1 else 0)
      - (if y mod 100 = 0 then 1 else 0) + (if y mod 400 = 0 then 1 else 0)"
    unfolding DayFromYear_def e a b c by (simp add: algebra_simps)
  then show ?thesis
    using mod_400_100[of y] mod_100_4[of y] by (auto simp: DaysInYear_def)
qed

lemma DaysInYear_leapDays: "DaysInYear y = 365 + leapDays y"
  by (simp add: leapDays_def DaysInYear_def)

lemma YearFromTime_bounds:
  "DayFromYear (YearFromTime t) \<le> Day t \<and> Day t < DayFromYear (YearFromTime t + 1)"
proof -
  define d q where "d = Day t" and "q = (400 * d) div 146097"
  have q: "146097 * q \<le> 400 * d \<and> 400 * d < 146097 * q + 146097"
    unfolding q_def by (rule div_bounds) simp
  define lo hi where "lo = DayFromYear (1970 + (q - 1))" and "hi = DayFromYear (1970 + (q + 2))"
  have "400 * lo < 146097 * q - 145504" "146097 * q + 291587 < 400 * hi"
    using DayFromYear_bounds[of "q - 1"] DayFromYear_bounds[of "q + 2"]
    by (simp_all add: lo_def hi_def algebra_simps)
  then have "lo \<le> d \<and> d < hi"
    using q by linarith
  then have lo: "DayFromYear (1970 + q - 1) \<le> d" and hi: "d < DayFromYear (1970 + q + 1 + 1)"
    by (simp_all add: lo_def hi_def algebra_simps)
  show ?thesis
    unfolding YearFromTime_def d_def[symmetric] q_def[symmetric] Let_def
    using lo hi by auto
qed

lemma YearFromTime_eqI:
  assumes "DayFromYear y \<le> Day t" and "Day t < DayFromYear (y + 1)"
  shows "YearFromTime t = y"
proof (rule ccontr)
  assume ne: "YearFromTime t \<noteq> y"
  note b = YearFromTime_bounds[of t]
  show False
  proof (cases "YearFromTime t < y")
    case True
    then have "DayFromYear (YearFromTime t + 1) \<le> DayFromYear y"
      by (intro DayFromYear_mono) simp
    then show False using b assms by linarith
  next
    case False
    then have "y + 1 \<le> YearFromTime t" using ne by simp
    then have "DayFromYear (y + 1) \<le> DayFromYear (YearFromTime t)"
      by (rule DayFromYear_mono)
    then show False using b assms by linarith
  qed
qed

lemma DayWithinYear_range:
  "0 \<le> DayWithinYear t \<and> DayWithinYear t < 365 + InLeapYear t"
  using YearFromTime_bounds[of t] DayFromYear_Suc[of "YearFromTime t"]
  by (simp add: DayWithinYear_def InLeapYear_def DaysInYear_leapDays)

lemma leapDays_cases: "leapDays y = 0 \<or> leapDays y = 1"
  by (simp add: leapDays_def)

lemma Day_MakeDate: "0 \<le> tod \<Longrightarrow> tod < msPerDay \<Longrightarrow> Day (MakeDate day tod) = day"
  by (simp add: Day_def MakeDate_def msPerDay_def)

lemma TimeWithinDay_MakeDate:
  "0 \<le> tod \<Longrightarrow> tod < msPerDay \<Longrightarrow> TimeWithinDay (MakeDate day tod) = tod"
  by (simp add: TimeWithinDay_def MakeDate_def msPerDay_def)

lemma MakeDate_Day: "MakeDate (Day t) (TimeWithinDay t) = t"
  by (simp add: MakeDate_def Day_def TimeWithinDay_def)

lemma TimeWithinDay_range: "0 \<le> TimeWithinDay t \<and> TimeWithinDay t < msPerDay"
  by (simp add: TimeWithinDay_def msPerDay_def)

lemma MakeDay_month: "0 \<le> m \<Longrightarrow> m \<le> 11 \<Longrightarrow>
  MakeDay y m d = DayFromYear y + monthStart m (leapDays y) + d - 1"
  by (simp add: MakeDay_def Let_def)

lemma month_cases:
  "0 \<le> (m::int) \<Longrightarrow> m \<le> 11 \<Longrightarrow>
   m = 0 \<or> m = 1 \<or> m = 2 \<or> m = 3 \<or> m = 4 \<or> m = 5 \<or> m = 6 \<or> m = 7 \<or>
   m = 8 \<or> m = 9 \<or> m = 10 \<or> m = 11"
  by presburger

lemma civil_day_in_year:
  assumes "0 \<le> m" "m \<le> 11" "1 \<le> d" "d \<le> DaysInMonth y (m + 1)"
  shows "0 \<le> monthStart m (leapDays y) + d - 1 \<and>
         monthStart m (leapDays y) + d - 1 < 365 + leapDays y"
  using assms(3,4) leapDays_cases[of y] month_cases[OF assms(1,2)]
  by (elim disjE) (simp_all add: monthStart_def DaysInMonth_def)

lemma civil_year:
  assumes "0 \<le> m" "m \<le> 11" "1 \<le> d" "d \<le> DaysInMonth y (m + 1)"
    and "Day t = MakeDay y m d"
  shows "YearFromTime t = y"
proof (rule YearFromTime_eqI)
  note r = civil_day_in_year[OF assms(1-4)]
  show "DayFromYear y \<le> Day t"
    using r assms by (simp add: MakeDay_month)
  show "Day t < DayFromYear (y + 1)"
    using r assms by (simp add: MakeDay_month DayFromYear_Suc DaysInYear_leapDays)
qed

lemma civil_month_date:
  assumes "0 \<le> m" "m \<le> 11" "1 \<le> d" "d \<le> DaysInMonth y (m + 1)"
    and "Day t = MakeDay y m d"
  shows "MonthFromTime t = m \<and> DateFromTime t = d"
proof -
  have y: "YearFromTime t = y" by (rule civil_year[OF assms])
  have dwy: "DayWithinYear t = monthStart m (leapDays y) + d - 1"
    using assms by (simp add: DayWithinYear_def y MakeDay_month)
  have l: "InLeapYear t = leapDays y" by (simp add: InLeapYear_def y)
  have mo: "MonthFromTime t = m"
    unfolding MonthFromTime_def dwy l Let_def
    using assms(3,4) leapDays_cases[of y] month_cases[OF assms(1,2)]
    by (elim disjE) (simp_all add: monthStart_def DaysInMonth_def)
  show ?thesis by (simp add: mo DateFromTime_def dwy l)
qed

lemma MonthFromTime_range: "0 \<le> MonthFromTime t \<and> MonthFromTime t \<le> 11"
  by (simp add: MonthFromTime_def Let_def)

lemma DateFromTime_range:
  "1 \<le> DateFromTime t \<and> DateFromTime t \<le> DaysInMonth (YearFromTime t) (MonthFromTime t + 1)"
  using DayWithinYear_range[of t] leapDays_cases[of "YearFromTime t"]
  unfolding DateFromTime_def MonthFromTime_def InLeapYear_def Let_def
  by (auto simp: monthStart_def DaysInMonth_def)

lemma MakeDay_fields:
  "MakeDay (YearFromTime t) (MonthFromTime t) (DateFromTime t) = Day t"
  using MonthFromTime_range[of t]
  by (simp add: MakeDay_month DateFromTime_def InLeapYear_def DayWithinYear_def)

lemma HourFromTime_TimeWithinDay: "HourFromTime t = TimeWithinDay t div 3600000"
proof -
  have "t mod (3600000 * 24) = 3600000 * (t div 3600000 mod 24) + t mod 3600000"
    by (rule zmod_zmult2_eq) simp
  then have "TimeWithinDay t = 3600000 * (t div 3600000 mod 24) + t mod 3600000"
    by (simp add: TimeWithinDay_def msPerDay_def)
  then show ?thesis
    by (simp add: HourFromTime_def)
qed

lemma MinFromTime_TimeWithinDay: "MinFromTime t = (TimeWithinDay t div 60000) mod 60"
proof -
  have "t mod (60000 * 1440) = 60000 * (t div 60000 mod 1440) + t mod 60000"
    by (rule zmod_zmult2_eq) simp
  then have "TimeWithinDay t = 60000 * (t div 60000 mod 1440) + t mod 60000"
    by (simp add: TimeWithinDay_def msPerDay_def)
  then have "TimeWithinDay t div 60000 = t div 60000 mod 1440"
    by simp
  moreover have "t div 60000 mod 1440 mod 60 = t div 60000 mod 60"
    by (rule mod_mod_cancel) simp
  ultimately show ?thesis
    by (simp add: MinFromTime_def)
qed

lemma HourFromTime_le_23: "0 \<le> HourFromTime t \<and> HourFromTime t \<le> 23"
  by (simp add: HourFromTime_def) 

lemma MinFromTime_range: "0 \<le> MinFromTime t \<and> MinFromTime t \<le> 59"
  by (simp add: MinFromTime_def)

lemma DaysInMonth_le_31: "DaysInMonth y m \<le> 31"
  using leapDays_cases[of y] by (auto simp: DaysInMonth_def)

text \<open>The local fields of the date that \<open>setFullYear\<close> makes.\<close>

lemma MakeDay_leap_day: "leapDays y = 0 \<Longrightarrow> MakeDay y 1 29 = MakeDay y 2 1"
  by (simp add: MakeDay_def monthStart_def)

lemma moved_fields:
  assumes t': "t' = MakeDate (MakeDay y' (MonthFromTime t) (DateFromTime t)) (TimeWithinDay t)"
  shows "YearFromTime t' = y'"
    and "(MonthFromTime t' + 1, DateFromTime t') = inYear y' (MonthFromTime t + 1, DateFromTime t)"
    and "TimeWithinDay t' = TimeWithinDay t"
    and "HourFromTime t' = HourFromTime t"
    and "MinFromTime t' = MinFromTime t"
    and "Day t' = MakeDay y' (MonthFromTime t) (DateFromTime t)"
proof -
  let ?m = "MonthFromTime t" and ?d = "DateFromTime t"
  note tw = TimeWithinDay_range[of t]
  show day: "Day t' = MakeDay y' ?m ?d"
    using tw by (simp add: t' Day_MakeDate)
  show twd: "TimeWithinDay t' = TimeWithinDay t"
    using tw by (simp add: t' TimeWithinDay_MakeDate)
  show "HourFromTime t' = HourFromTime t" "MinFromTime t' = MinFromTime t"
    by (simp_all add: HourFromTime_TimeWithinDay MinFromTime_TimeWithinDay twd)
  note m = MonthFromTime_range[of t] and d = DateFromTime_range[of t]
  have "YearFromTime t' = y' \<and> (MonthFromTime t' + 1, DateFromTime t') = inYear y' (?m + 1, ?d)"
  proof (cases "?d \<le> DaysInMonth y' (?m + 1)")
    case True
    have "YearFromTime t' = y'"
      using m d True day by (intro civil_year[of ?m ?d]) simp_all
    moreover have "MonthFromTime t' = ?m \<and> DateFromTime t' = ?d"
      using m d True day by (intro civil_month_date[of ?m ?d y']) simp_all
    moreover have "inYear y' (?m + 1, ?d) = (?m + 1, ?d)"
      using True by (auto simp: inYear_def DaysInMonth_def)
    ultimately show ?thesis by simp
  next
    case False
    then have feb: "?m = 1" "?d = 29" "leapDays y' = 0"
      using d m leapDays_cases[of y'] leapDays_cases[of "YearFromTime t"]
      by (auto simp: DaysInMonth_def split: if_splits)
    have day': "Day t' = MakeDay y' 2 1"
      using day feb by (simp add: MakeDay_leap_day)
    have "YearFromTime t' = y'"
      using day' by (intro civil_year[of 2 1]) (simp_all add: DaysInMonth_def)
    moreover have "MonthFromTime t' = 2 \<and> DateFromTime t' = 1"
      using day' by (intro civil_month_date[of 2 1 y']) (simp_all add: DaysInMonth_def)
    moreover have "inYear y' (?m + 1, ?d) = (3, 1)"
      using feb by (simp add: inYear_def)
    ultimately show ?thesis by simp
  qed
  then show "YearFromTime t' = y'"
    and "(MonthFromTime t' + 1, DateFromTime t') = inYear y' (?m + 1, ?d)"
    by simp_all
qed

lemma setFullYear_local:
  "setFullYear (fixedZone off) (Some t) (Some y') = Some t' \<Longrightarrow>
   LocalTime (fixedZone off) t' = MakeDate (MakeDay y' (MonthFromTime (LocalTime (fixedZone off) t))
                                 (DateFromTime (LocalTime (fixedZone off) t)))
                        (TimeWithinDay (LocalTime (fixedZone off) t))"
  by (auto simp: setFullYear_def Let_def LocalTime_def UTC_def fixedZone_def)

lemma setFullYear_fields:
  assumes "setFullYear (fixedZone off) (Some t) (Some y') = Some t'"
    and "localFields (fixedZone off) t = (y, m, d, h, mi)"
  shows "localFields (fixedZone off) t' = (y', fst (inYear y' (m, d)), snd (inYear y' (m, d)), h, mi)"
    and "TimeWithinDay (LocalTime (fixedZone off) t') = TimeWithinDay (LocalTime (fixedZone off) t)"
proof -
  note l = setFullYear_local[OF assms(1)]
  note f = moved_fields[OF l]
  have md: "inYear y' (m, d) = (MonthFromTime (LocalTime (fixedZone off) t') + 1, DateFromTime (LocalTime (fixedZone off) t'))"
    using f(2) assms(2) by (simp add: localFields_def Let_def)
  show "localFields (fixedZone off) t' = (y', fst (inYear y' (m, d)), snd (inYear y' (m, d)), h, mi)"
    using assms(2) f(1,4,5) by (simp add: md) (simp add: localFields_def Let_def)
  show "TimeWithinDay (LocalTime (fixedZone off) t') = TimeWithinDay (LocalTime (fixedZone off) t)"
    by (rule f(3))
qed

declare natToDigits.simps [simp del]

lemma monthStart_leap:
  assumes "0 \<le> m" "m \<le> 11"
  shows "monthStart m l' = monthStart m l + (if 2 \<le> m then l' - l else 0)"
  using month_cases[OF assms] by (elim disjE) (simp_all add: monthStart_def)

lemma oneYearLater_within:
  assumes "oneYearLater (fixedZone off) (Some n) = Some L"
  shows "n + 365 * msPerDay \<le> L \<and> L \<le> n + 366 * msPerDay"
proof -
  let ?ln = "LocalTime (fixedZone off) n"
  let ?Y = "YearFromTime ?ln" and ?m = "MonthFromTime ?ln" and ?d = "DateFromTime ?ln"
  have s: "setFullYear (fixedZone off) (Some n) (Some (?Y + 1)) = Some L"
    using assms by (simp add: oneYearLater_def getFullYear_def numberAdd_def)
  have L: "LocalTime (fixedZone off) L = MakeDate (MakeDay (?Y + 1) ?m ?d) (TimeWithinDay ?ln)"
    by (rule setFullYear_local[OF s])
  have n: "?ln = MakeDate (MakeDay ?Y ?m ?d) (TimeWithinDay ?ln)"
    by (simp add: MakeDay_fields MakeDate_Day)
  note m = MonthFromTime_range[of ?ln]
  have "MakeDay (?Y + 1) ?m ?d - MakeDay ?Y ?m ?d
      = 365 + leapDays ?Y + (if 2 \<le> ?m then leapDays (?Y + 1) - leapDays ?Y else 0)"
    using m monthStart_leap[of ?m "leapDays (?Y + 1)" "leapDays ?Y"]
    by (simp add: MakeDay_month DayFromYear_Suc DaysInYear_leapDays)
  then have "365 \<le> MakeDay (?Y + 1) ?m ?d - MakeDay ?Y ?m ?d \<and>
             MakeDay (?Y + 1) ?m ?d - MakeDay ?Y ?m ?d \<le> 366"
    using leapDays_cases[of ?Y] leapDays_cases[of "?Y + 1"] by (auto split: if_splits)
  moreover have "LocalTime (fixedZone off) L - ?ln = (MakeDay (?Y + 1) ?m ?d - MakeDay ?Y ?m ?d) * msPerDay"
    by (subst L, subst n) (simp add: MakeDate_def algebra_simps)
  moreover have "LocalTime (fixedZone off) L - ?ln = L - n"
    by (simp add: LocalTime_def fixedZone_def)
  ultimately have "365 * msPerDay \<le> L - n \<and> L - n \<le> 366 * msPerDay"
    by (simp add: msPerDay_def)
  then show ?thesis by linarith
qed

lemma formatLocal_fields: "formatLocal zone (Some t) = showFields (localFields zone t)"
  by (simp add: formatLocal_def showFields_def localFields_def twoDigits_def Let_def
        getFullYear_def getMonth_def getDate_def getHours_def getMinutes_def numberAdd_def)

lemma digit_cases:
  "k < 10 \<Longrightarrow> k = 0 \<or> k = 1 \<or> k = 2 \<or> k = 3 \<or> k = 4 \<or> k = 5 \<or> k = 6 \<or> k = 7 \<or> k = 8
     \<or> k = (9::nat)"
  by presburger

lemma isDigit_char:
  assumes "k < 10"
  shows "isDigit (0x30 + of_nat k)"
  using digit_cases[OF assms] by (elim disjE) (simp_all add: isDigit_def)

lemma natToDigits_1: "n < 10 \<Longrightarrow> natToDigits n = [0x30 + of_nat n]"
  by (simp add: natToDigits.simps)

lemma natToDigits_step:
  "10 \<le> n \<Longrightarrow> natToDigits n = natToDigits (n div 10) @ [0x30 + of_nat (n mod 10)]"
  by (subst natToDigits.simps) simp

lemma natToDigits_2:
  assumes "10 \<le> n" "n < 100"
  shows "natToDigits n = [0x30 + of_nat (n div 10), 0x30 + of_nat (n mod 10)]"
proof -
  have "n div 10 < 10" using assms by simp
  then show ?thesis using assms by (simp add: natToDigits_step natToDigits_1)
qed

lemma natToDigits_3:
  assumes "100 \<le> n" "n < 1000"
  shows "natToDigits n = [0x30 + of_nat (n div 10 div 10), 0x30 + of_nat (n div 10 mod 10),
                          0x30 + of_nat (n mod 10)]"
proof -
  have "10 \<le> n div 10" "n div 10 < 100" "10 \<le> n" using assms by simp_all
  then show ?thesis by (simp add: natToDigits_step[of n] natToDigits_2)
qed

lemma natToDigits_4:
  assumes "1000 \<le> n" "n < 10000"
  shows "natToDigits n = [0x30 + of_nat (n div 10 div 10 div 10),
                          0x30 + of_nat (n div 10 div 10 mod 10),
                          0x30 + of_nat (n div 10 mod 10), 0x30 + of_nat (n mod 10)]"
proof -
  have "100 \<le> n div 10" "n div 10 < 1000" "10 \<le> n" using assms by simp_all
  then show ?thesis by (simp add: natToDigits_step[of n] natToDigits_3)
qed

lemma natToDigits_digits: "\<forall>c \<in> set (natToDigits n). isDigit c"
proof (induction n rule: natToDigits.induct)
  case (1 n)
  show ?case
  proof (cases "n < 10")
    case True
    then show ?thesis by (simp add: natToDigits_1 isDigit_char)
  next
    case False
    then have "n mod 10 < 10" "10 \<le> n" by simp_all
    then show ?thesis
      using 1 False by (simp add: natToDigits_step isDigit_char)
  qed
qed

lemma twoDigits_form:
  assumes "0 \<le> k" "k \<le> 99"
  shows "\<exists>a b. twoDigits k = [a, b] \<and> isDigit a \<and> isDigit b"
proof -
  define j where "j = nat k"
  have tw: "twoDigits k = padStart2 (natToDigits j)"
    using assms by (simp add: twoDigits_def numberToString_def j_def)
  have j: "j < 100" using assms by (simp add: j_def)
  have dig: "\<forall>c \<in> set (natToDigits j). isDigit c"
    by (rule natToDigits_digits)
  show ?thesis
  proof (cases "j < 10")
    case True
    have z: "isDigit 0x30" by (simp add: isDigit_def)
    show ?thesis
      using True dig z by (simp add: tw padStart2_def natToDigits_1)
  next
    case False
    then have "10 \<le> j" by simp
    then show ?thesis
      using j dig by (simp add: tw padStart2_def natToDigits_2)
  qed
qed

lemma year4_form:
  assumes "1000 \<le> y" "y \<le> 9999"
  shows "\<exists>a b c d. numberToString (Some y) = [a, b, c, d] \<and> isDigit a \<and> isDigit b
           \<and> isDigit c \<and> isDigit d"
proof -
  define j where "j = nat y"
  have n: "numberToString (Some y) = natToDigits j"
    using assms by (simp add: numberToString_def j_def)
  have j: "1000 \<le> j" "j < 10000" using assms by (simp_all add: j_def)
  have dig: "\<forall>c \<in> set (natToDigits j). isDigit c"
    by (rule natToDigits_digits)
  show ?thesis
    using dig by (simp add: n natToDigits_4[OF j])
qed

lemma showFields_form:
  assumes "1000 \<le> y" "y \<le> 9999" "0 \<le> mo" "mo \<le> 99" "0 \<le> d" "d \<le> 99"
    "0 \<le> h" "h \<le> 99" "0 \<le> mi" "mi \<le> 99"
  shows "isLocalDateTimeForm (showFields (y, mo, d, h, mi))"
proof -
  obtain y1 y2 y3 y4 where y: "numberToString (Some y) = [y1, y2, y3, y4]"
    "isDigit y1" "isDigit y2" "isDigit y3" "isDigit y4"
    using year4_form[OF assms(1,2)] by blast
  obtain m1 m2 where m: "twoDigits mo = [m1, m2]" "isDigit m1" "isDigit m2"
    using twoDigits_form[OF assms(3,4)] by blast
  obtain d1 d2 where d: "twoDigits d = [d1, d2]" "isDigit d1" "isDigit d2"
    using twoDigits_form[OF assms(5,6)] by blast
  obtain h1 h2 where h: "twoDigits h = [h1, h2]" "isDigit h1" "isDigit h2"
    using twoDigits_form[OF assms(7,8)] by blast
  obtain i1 i2 where i: "twoDigits mi = [i1, i2]" "isDigit i1" "isDigit i2"
    using twoDigits_form[OF assms(9,10)] by blast
  show ?thesis
    by (simp add: showFields_def isLocalDateTimeForm_def y m d h i)
qed

lemma localFields_ranges:
  assumes "localFields zone t = (y, mo, d, h, mi)"
  shows "1 \<le> mo \<and> mo \<le> 12 \<and> 1 \<le> d \<and> d \<le> 31 \<and> 0 \<le> h \<and> h \<le> 23 \<and> 0 \<le> mi \<and> mi \<le> 59"
proof -
  let ?lt = "LocalTime zone t"
  have "d \<le> DaysInMonth (YearFromTime ?lt) (MonthFromTime ?lt + 1)" "1 \<le> d"
    using assms DateFromTime_range[of ?lt] by (auto simp: localFields_def Let_def)
  then have "1 \<le> d \<and> d \<le> 31"
    using DaysInMonth_le_31[of "YearFromTime ?lt" "MonthFromTime ?lt + 1"] by linarith
  then show ?thesis
    using assms MonthFromTime_range[of ?lt] HourFromTime_le_23[of ?lt] MinFromTime_range[of ?lt]
    by (auto simp: localFields_def Let_def)
qed

lemma MakeTime_fields:
  assumes "0 \<le> h" "h \<le> 23" "0 \<le> mi" "mi \<le> 59" "0 \<le> sec" "sec \<le> 59" "0 \<le> ms" "ms \<le> 999"
  shows "0 \<le> MakeTime h mi sec ms" and "MakeTime h mi sec ms < msPerDay"
    and "MakeTime h mi sec ms div 3600000 = h"
    and "(MakeTime h mi sec ms div 60000) mod 60 = mi"
proof -
  let ?t = "MakeTime h mi sec ms"
  define r where "r = sec * 1000 + ms"
  have r: "0 \<le> r" "r < 60000" using assms by (simp_all add: r_def)
  define q where "q = mi * 60000 + r"
  have q: "0 \<le> q" "q < 3600000" using assms r by (simp_all add: q_def)
  have t: "?t = 3600000 * h + q" by (simp add: MakeTime_def q_def r_def)
  show "0 \<le> ?t" "?t < msPerDay" using assms q by (simp_all add: t msPerDay_def)
  show "?t div 3600000 = h"
    using int_div_pos_eq[OF t q] .
  have t': "?t = 60000 * (h * 60 + mi) + r" by (simp add: MakeTime_def r_def)
  have "?t div 60000 = h * 60 + mi"
    using int_div_pos_eq[OF t' r] .
  moreover have "(h * 60 + mi) mod 60 = mi"
    using assms by simp
  ultimately show "(?t div 60000) mod 60 = mi" by simp
qed

lemma localFields_civil:
  assumes "0 \<le> m0" "m0 \<le> 11" "1 \<le> d" "d \<le> DaysInMonth y (m0 + 1)"
    and "0 \<le> h" "h \<le> 23" "0 \<le> mi" "mi \<le> 59" "0 \<le> sec" "sec \<le> 59" "0 \<le> ms" "ms \<le> 999"
  shows "localFields (fixedZone off) (UTC (fixedZone off) (MakeDate (MakeDay y m0 d) (MakeTime h mi sec ms)))
           = (y, m0 + 1, d, h, mi)"
proof -
  let ?tod = "MakeTime h mi sec ms"
  let ?lt = "MakeDate (MakeDay y m0 d) ?tod"
  note mt = MakeTime_fields[OF assms(5-12)]
  have lt: "LocalTime (fixedZone off) (UTC (fixedZone off) ?lt) = ?lt"
    by (simp add: LocalTime_def UTC_def fixedZone_def)
  have day: "Day ?lt = MakeDay y m0 d" using mt(1,2) by (rule Day_MakeDate)
  have twd: "TimeWithinDay ?lt = ?tod" using mt(1,2) by (rule TimeWithinDay_MakeDate)
  have "YearFromTime ?lt = y" by (rule civil_year[OF assms(1-4) day])
  moreover have "MonthFromTime ?lt = m0 \<and> DateFromTime ?lt = d"
    by (rule civil_month_date[OF assms(1-4) day])
  moreover have "HourFromTime ?lt = h"
    by (simp add: HourFromTime_TimeWithinDay twd mt(3))
  moreover have "MinFromTime ?lt = mi"
    by (simp add: MinFromTime_TimeWithinDay twd mt(4))
  ultimately show ?thesis
    by (simp add: localFields_def lt)
qed

lemma due_at_cases:
  assumes "raw_due_at raw = Some s" and "s \<noteq> []" and "parse s = Some p"
    and "parse nowStr = Some n"
    and "localFields (fixedZone off) n = (Y, M, D, H, Mi)" and "localFields (fixedZone off) p = (y, m, d, h, mi)"
  shows "(\<exists>L. oneYearLater (fixedZone off) (Some n) = Some L) \<and>
   (\<forall>L. oneYearLater (fixedZone off) (Some n) = Some L \<longrightarrow>
     localFields (fixedZone off) L = (Y + 1, fst (inYear (Y + 1) (M, D)), snd (inYear (Y + 1) (M, D)), H, Mi) \<and>
     TimeWithinDay (LocalTime (fixedZone off) L) = TimeWithinDay (LocalTime (fixedZone off) n) \<and>
     n + 365 * msPerDay \<le> L \<and> L \<le> n + 366 * msPerDay \<and>
     res_due_at (postprocess parse (fixedZone off) raw nowStr) =
       Some (showFields (if L < p then (Y, fst (inYear Y (m, d)), snd (inYear Y (m, d)), h, mi)
                         else (y, m, d, h, mi))) \<and>
     (1000 \<le> (if L < p then Y else y) \<and> (if L < p then Y else y) \<le> 9999 \<longrightarrow>
        isLocalDateTimeForm
          (showFields (if L < p then (Y, fst (inYear Y (m, d)), snd (inYear Y (m, d)), h, mi)
                       else (y, m, d, h, mi)))))"
proof -
  have Y: "getFullYear (fixedZone off) (Some n) = Some Y"
    using assms(5) by (simp add: localFields_def getFullYear_def Let_def)
  obtain L where L: "oneYearLater (fixedZone off) (Some n) = Some L"
    by (simp add: oneYearLater_def setFullYear_def Y numberAdd_def Let_def)
  then have sL: "setFullYear (fixedZone off) (Some n) (Some (Y + 1)) = Some L"
    by (simp add: oneYearLater_def Y numberAdd_def)
  note fL = setFullYear_fields[OF sL assms(5)]
  note w = oneYearLater_within[OF L]
  obtain p' where p': "setFullYear (fixedZone off) (Some p) (Some Y) = Some p'"
    by (simp add: setFullYear_def Let_def)
  note fp = setFullYear_fields[OF p' assms(6)]
  let ?shown = "if L < p then (Y, fst (inYear Y (m, d)), snd (inYear Y (m, d)), h, mi)
                else (y, m, d, h, mi)"
  have res: "res_due_at (postprocess parse (fixedZone off) raw nowStr) = Some (showFields ?shown)"
    using assms(1-4) L Y p' fp(1) assms(6)
    by (simp add: postprocess_def postprocessDueAt_def Let_def Date_lt_def formatLocal_fields)
  have form: "isLocalDateTimeForm (showFields ?shown)"
    if yr: "1000 \<le> (if L < p then Y else y) \<and> (if L < p then Y else y) \<le> 9999"
  proof (cases "L < p")
    case True
    note r = localFields_ranges[OF fp(1)]
    show ?thesis
      using True yr r by (simp add: showFields_form)
  next
    case False
    note r = localFields_ranges[OF assms(6)]
    show ?thesis
      using False yr r by (simp add: showFields_form)
  qed
  have "oneYearLater (fixedZone off) (Some n) = Some L' \<Longrightarrow> L' = L" for L'
    using L by simp
  then show ?thesis
    using L fL w res form by blast
qed

section \<open>The due time of the postprocessor\<close>

lemma natToDigits_eval:
  "natToDigits (numeral k) =
     (if (numeral k :: nat) < 10 then [0x30 + of_nat (numeral k)]
      else natToDigits (numeral k div 10) @ [0x30 + of_nat (numeral k mod 10)])"
  "natToDigits 0 = [0x30]" "natToDigits 1 = [0x31]" "natToDigits (Suc 0) = [0x31]"
  by (simp_all add: natToDigits.simps)

lemmas show_eval = showFields_def localDateTimeText_def fourDigits_def twoDigits_def
  numberToString_def padStart2_def
  natToDigits_eval inYear_def leapDays_def DaysInYear_def ascii_def

lemmas civil_eval = UTC_def fixedZone_def MakeDate_def MakeDay_def MakeTime_def DayFromYear_def
  monthStart_def leapDays_def DaysInYear_def msPerDay_def KST_def Let_def

text \<open>The two instants of the examples, as local dates, and their fields.\<close>

lemma parse_local:
  "Date_parse KST (ascii ''2026-02-17T09:00'')
     = Some (UTC KST (MakeDate (MakeDay 2026 1 17) (MakeTime 9 0 0 0)))"
  "Date_parse KST (ascii ''2027-03-05T14:30'')
     = Some (UTC KST (MakeDate (MakeDay 2027 2 5) (MakeTime 14 30 0 0)))"
  "Date_parse KST (ascii ''2026-02-07T09:00'')
     = Some (UTC KST (MakeDate (MakeDay 2026 1 7) (MakeTime 9 0 0 0)))"
  "Date_parse KST (ascii ''0999-06-01T10:00'')
     = Some (UTC KST (MakeDate (MakeDay 999 5 1) (MakeTime 10 0 0 0)))"
  "Date_parse KST (ascii ''2025-06-01T00:00'')
     = Some (UTC KST (MakeDate (MakeDay 2025 5 1) (MakeTime 0 0 0 0)))"
  "Date_parse KST (ascii ''2028-02-29T09:00'')
     = Some (UTC KST (MakeDate (MakeDay 2028 1 29) (MakeTime 9 0 0 0)))"
  by (simp_all add: parse_eval ascii_def civil_eval)

lemma fields_local:
  "localFields KST (UTC KST (MakeDate (MakeDay 2026 1 17) (MakeTime 9 0 0 0))) = (2026, 2, 17, 9, 0)"
  "localFields KST (UTC KST (MakeDate (MakeDay 2027 2 5) (MakeTime 14 30 0 0))) = (2027, 3, 5, 14, 30)"
  "localFields KST (UTC KST (MakeDate (MakeDay 2026 1 7) (MakeTime 9 0 0 0))) = (2026, 2, 7, 9, 0)"
  "localFields KST (UTC KST (MakeDate (MakeDay 999 5 1) (MakeTime 10 0 0 0))) = (999, 6, 1, 10, 0)"
  "localFields KST (UTC KST (MakeDate (MakeDay 2025 5 1) (MakeTime 0 0 0 0))) = (2025, 6, 1, 0, 0)"
  "localFields KST (UTC KST (MakeDate (MakeDay 2028 1 29) (MakeTime 9 0 0 0))) = (2028, 2, 29, 9, 0)"
  using localFields_civil[of 1 17 2026 9 0 0 0 32400000, folded KST_def] localFields_civil[of 2 5 2027 14 30 0 0 32400000, folded KST_def]
    localFields_civil[of 1 7 2026 9 0 0 0 32400000, folded KST_def] localFields_civil[of 5 1 999 10 0 0 0 32400000, folded KST_def]
    localFields_civil[of 5 1 2025 0 0 0 0 32400000, folded KST_def] localFields_civil[of 1 29 2028 9 0 0 0 32400000, folded KST_def]
  by (simp_all add: DaysInMonth_def leapDays_def DaysInYear_def)

lemma showFields_padded:
  assumes "1000 \<le> y" "y \<le> 9999"
  shows "showFields (y, mo, d, h, mi) = localDateTimeText (y, mo, d, h, mi)"
proof -
  obtain a b c e where "numberToString (Some y) = [a, b, c, e]"
    using year4_form [OF assms] by blast
  then show ?thesis
    by (simp add: showFields_def localDateTimeText_def fourDigits_def)
qed

text \<open>
  Claim C6, in a time zone with a fixed offset from UTC and for years from 1000 to 9999. Let
  the raw due time parse to the instant \<open>p\<close> and the reference text to \<open>n\<close>, and let \<open>L\<close>
  be \<open>n\<close> with its local year advanced by one (\<open>setFullYear\<close>: the same month, day and time
  of day, 29 February becoming 1 March; it lies 365 to 366 days after \<open>n\<close>). If \<open>L < p\<close> the
  result carries the local fields of \<open>p\<close> with the year replaced by the reference year, 29
  February becoming 1 March in a year that has none; otherwise it carries the local fields
  of \<open>p\<close> unchanged. The result is in the form \<open>YYYY-MM-DDTHH:mm\<close>.
\<close>

theorem postprocess_due_at_year:
  assumes "raw_due_at raw = Some s" and "s \<noteq> []" and "parse s = Some p"
    and "parse nowStr = Some n"
    and "localFields (fixedZone off) n = (Y, M, D, H, Mi)"
    and "localFields (fixedZone off) p = (y, m, d, h, mi)"
    and "1000 \<le> Y" and "Y \<le> 9999" and "1000 \<le> y" and "y \<le> 9999"
  shows "(\<exists>L. oneYearLater (fixedZone off) (Some n) = Some L) \<and>
   (\<forall>L. oneYearLater (fixedZone off) (Some n) = Some L \<longrightarrow>
     localFields (fixedZone off) L
       = (Y + 1, fst (inYear (Y + 1) (M, D)), snd (inYear (Y + 1) (M, D)), H, Mi) \<and>
     n + 365 * msPerDay \<le> L \<and> L \<le> n + 366 * msPerDay \<and>
     res_due_at (postprocess parse (fixedZone off) raw nowStr) =
       Some (localDateTimeText
         (if L < p then (Y, fst (inYear Y (m, d)), snd (inYear Y (m, d)), h, mi)
          else (y, m, d, h, mi))) \<and>
     isLocalDateTimeForm (localDateTimeText
         (if L < p then (Y, fst (inYear Y (m, d)), snd (inYear Y (m, d)), h, mi)
          else (y, m, d, h, mi))))"
proof -
  note C = due_at_cases [OF assms(1-6)]
  have ex: "\<exists>L. oneYearLater (fixedZone off) (Some n) = Some L"
    using C by (elim conjE)
  have all: "localFields (fixedZone off) L
       = (Y + 1, fst (inYear (Y + 1) (M, D)), snd (inYear (Y + 1) (M, D)), H, Mi) \<and>
     n + 365 * msPerDay \<le> L \<and> L \<le> n + 366 * msPerDay \<and>
     res_due_at (postprocess parse (fixedZone off) raw nowStr) =
       Some (localDateTimeText
         (if L < p then (Y, fst (inYear Y (m, d)), snd (inYear Y (m, d)), h, mi)
          else (y, m, d, h, mi))) \<and>
     isLocalDateTimeForm (localDateTimeText
         (if L < p then (Y, fst (inYear Y (m, d)), snd (inYear Y (m, d)), h, mi)
          else (y, m, d, h, mi)))"
    if L: "oneYearLater (fixedZone off) (Some n) = Some L" for L
  proof -
    note P = C [THEN conjunct2, rule_format, OF L]
    have yr: "1000 \<le> (if L < p then Y else y) \<and> (if L < p then Y else y) \<le> 9999"
      using assms(7-10) by simp
    have pad: "showFields (if L < p then (Y, fst (inYear Y (m, d)), snd (inYear Y (m, d)), h, mi)
                           else (y, m, d, h, mi))
        = localDateTimeText (if L < p then (Y, fst (inYear Y (m, d)), snd (inYear Y (m, d)), h, mi)
                             else (y, m, d, h, mi))"
      using assms(7-10) by (simp add: showFields_padded)
    show ?thesis
      using P yr unfolding pad by blast
  qed
  show ?thesis
    using ex all by blast
qed

theorem postprocess_due_at_year_witness:
  "res_due_at (postprocess (Date_parse KST) KST (rawDue ''2027-03-05T14:30'')
      (ascii ''2026-02-17T09:00'')) = Some (ascii ''2026-03-05T14:30'') \<and>
   isLocalDateTimeForm (ascii ''2026-03-05T14:30'') \<and>
   res_due_at (postprocess (Date_parse KST) KST (rawDue ''2026-02-07T09:00'')
      (ascii ''2026-02-17T09:00'')) = Some (ascii ''2026-02-07T09:00'')"
proof -
  note pl = parse_local [unfolded KST_def] and fl = fields_local [unfolded KST_def]
  let ?n = "UTC (fixedZone 32400000) (MakeDate (MakeDay 2026 1 17) (MakeTime 9 0 0 0))"
  let ?p = "UTC (fixedZone 32400000) (MakeDate (MakeDay 2027 2 5) (MakeTime 14 30 0 0))"
  let ?q = "UTC (fixedZone 32400000) (MakeDate (MakeDay 2026 1 7) (MakeTime 9 0 0 0))"
  have far: "?n + 366 * msPerDay < ?p" and past: "?q < ?n + 365 * msPerDay"
    by (simp_all add: civil_eval)
  have ne: "ascii ''2027-03-05T14:30'' \<noteq> []" "ascii ''2026-02-07T09:00'' \<noteq> []"
    by (simp_all add: ascii_def)
  have r: "raw_due_at (rawDue s) = Some (ascii s)" for s
    by (simp add: rawDue_def)
  note T1 = postprocess_due_at_year [OF r ne(1) pl(2) pl(1) fl(1) fl(2), simplified]
  note T2 = postprocess_due_at_year [OF r ne(2) pl(3) pl(1) fl(1) fl(3), simplified]
  from T1 obtain L where L: "oneYearLater (fixedZone 32400000) (Some ?n) = Some L"
    by (elim conjE exE)
  note P1 = T1 [THEN conjunct2, rule_format, OF L]
  have lt: "L < ?p" using P1 far by linarith
  have sh: "localDateTimeText (2026, fst (inYear 2026 (3, 5)), snd (inYear 2026 (3, 5)), 14, 30)
      = ascii ''2026-03-05T14:30''"
    by (simp add: show_eval)
  have a: "res_due_at (postprocess (Date_parse (fixedZone 32400000)) (fixedZone 32400000) (rawDue ''2027-03-05T14:30'')
      (ascii ''2026-02-17T09:00'')) = Some (ascii ''2026-03-05T14:30'')"
    using P1 lt sh by simp
  have b: "isLocalDateTimeForm (ascii ''2026-03-05T14:30'')"
    using P1 lt sh by simp
  note P2 = T2 [THEN conjunct2, rule_format, OF L]
  have ge: "\<not> L < ?q" using P2 past by linarith
  have sh': "localDateTimeText (2026, 2, 7, 9, 0) = ascii ''2026-02-07T09:00''"
    by (simp add: show_eval)
  have c: "res_due_at (postprocess (Date_parse (fixedZone 32400000)) (fixedZone 32400000) (rawDue ''2026-02-07T09:00'')
      (ascii ''2026-02-17T09:00'')) = Some (ascii ''2026-02-07T09:00'')"
    using P2 ge sh' by simp
  show ?thesis unfolding KST_def using a b c by blast
qed

text \<open>
  The 29 February of a leap year, moved into a reference year that is not one, comes out as
  1 March: the result is not the due time with its year replaced.
\<close>

theorem postprocess_due_at_leap_day:
  "res_due_at (postprocess (Date_parse KST) KST (rawDue ''2028-02-29T09:00'')
      (ascii ''2025-06-01T00:00'')) = Some (ascii ''2025-03-01T09:00'') \<and>
   localDateTimeText (2025, 2, 29, 9, 0) = ascii ''2025-02-29T09:00'' \<and>
   res_due_at (postprocess (Date_parse KST) KST (rawDue ''2028-02-29T09:00'')
      (ascii ''2025-06-01T00:00'')) \<noteq> Some (localDateTimeText (2025, 2, 29, 9, 0))"
proof -
  note pl = parse_local [unfolded KST_def] and fl = fields_local [unfolded KST_def]
  let ?m = "UTC (fixedZone 32400000) (MakeDate (MakeDay 2025 5 1) (MakeTime 0 0 0 0))"
  let ?q = "UTC (fixedZone 32400000) (MakeDate (MakeDay 2028 1 29) (MakeTime 9 0 0 0))"
  have far: "?m + 366 * msPerDay < ?q"
    by (simp add: civil_eval)
  have ne: "ascii ''2028-02-29T09:00'' \<noteq> []"
    by (simp add: ascii_def)
  have r: "raw_due_at (rawDue s) = Some (ascii s)" for s
    by (simp add: rawDue_def)
  note T2 = due_at_cases [OF r ne pl(6) pl(5) fl(5) fl(6)]
  from T2 obtain K where K: "oneYearLater (fixedZone 32400000) (Some ?m) = Some K"
    by (elim conjE exE)
  note P2 = T2 [THEN conjunct2, rule_format, OF K]
  have lt: "K < ?q" using P2 far by linarith
  have sh': "showFields (2025, fst (inYear 2025 (2, 29)), snd (inYear 2025 (2, 29)), 9, 0)
      = ascii ''2025-03-01T09:00''"
    by (simp add: show_eval)
  have c: "res_due_at (postprocess (Date_parse (fixedZone 32400000)) (fixedZone 32400000)
      (rawDue ''2028-02-29T09:00'') (ascii ''2025-06-01T00:00'')) = Some (ascii ''2025-03-01T09:00'')"
    using P2 lt sh' by simp
  have d: "localDateTimeText (2025, 2, 29, 9, 0) = ascii ''2025-02-29T09:00''"
    by (simp add: localDateTimeText_def fourDigits_def show_eval)
  have e: "ascii ''2025-03-01T09:00'' \<noteq> ascii ''2025-02-29T09:00''"
    by (simp add: ascii_def)
  show ?thesis unfolding KST_def d using c e by simp
qed

text \<open>
  The year is printed as it is, without padding: a due time in a year before 1000 does not
  come out in the form \<open>YYYY-MM-DDTHH:mm\<close> that the comment of the source and the type of the
  result name.
\<close>

lemma postprocess_due_at_unpadded_year:
  "res_due_at (postprocess (Date_parse KST) KST (rawDue ''0999-06-01T10:00'')
      (ascii ''2026-02-17T09:00'')) = Some (ascii ''999-06-01T10:00'') \<and>
   \<not> isLocalDateTimeForm (ascii ''999-06-01T10:00'')"
proof -
  note pl = parse_local [unfolded KST_def] and fl = fields_local [unfolded KST_def]
  let ?n = "UTC (fixedZone 32400000) (MakeDate (MakeDay 2026 1 17) (MakeTime 9 0 0 0))"
  let ?p = "UTC (fixedZone 32400000) (MakeDate (MakeDay 999 5 1) (MakeTime 10 0 0 0))"
  have past: "?p < ?n + 365 * msPerDay"
    by (simp add: civil_eval)
  have ne: "ascii ''0999-06-01T10:00'' \<noteq> []"
    by (simp add: ascii_def)
  have r: "raw_due_at (rawDue s) = Some (ascii s)" for s
    by (simp add: rawDue_def)
  note T1 = due_at_cases [OF r ne pl(4) pl(1) fl(1) fl(4)]
  from T1 obtain L where L: "oneYearLater (fixedZone 32400000) (Some ?n) = Some L"
    by (elim conjE exE)
  note P1 = T1 [THEN conjunct2, rule_format, OF L]
  have ge: "\<not> L < ?p" using P1 past by linarith
  have sh: "showFields (999, 6, 1, 10, 0) = ascii ''999-06-01T10:00''"
    by (simp add: show_eval)
  have a: "res_due_at (postprocess (Date_parse (fixedZone 32400000)) (fixedZone 32400000)
      (rawDue ''0999-06-01T10:00'') (ascii ''2026-02-17T09:00'')) = Some (ascii ''999-06-01T10:00'')"
    using P1 ge sh by simp
  have b: "\<not> isLocalDateTimeForm (ascii ''999-06-01T10:00'')"
    by (simp add: isLocalDateTimeForm_def ascii_def)
  show ?thesis unfolding KST_def using a b by simp
qed

subsection \<open>Daylight saving\<close>

lemma civil_fields:
  assumes "0 \<le> m0" "m0 \<le> 11" "1 \<le> d" "d \<le> DaysInMonth y (m0 + 1)"
    and "0 \<le> h" "h \<le> 23" "0 \<le> mi" "mi \<le> 59" "0 \<le> sec" "sec \<le> 59" "0 \<le> ms" "ms \<le> 999"
    and "lt = MakeDate (MakeDay y m0 d) (MakeTime h mi sec ms)"
  shows "YearFromTime lt = y \<and> MonthFromTime lt = m0 \<and> DateFromTime lt = d \<and>
         HourFromTime lt = h \<and> MinFromTime lt = mi \<and> TimeWithinDay lt = MakeTime h mi sec ms"
proof -
  note mt = MakeTime_fields[OF assms(5-12)]
  have day: "Day lt = MakeDay y m0 d" unfolding assms(13) using mt(1,2) by (rule Day_MakeDate)
  have twd: "TimeWithinDay lt = MakeTime h mi sec ms"
    unfolding assms(13) using mt(1,2) by (rule TimeWithinDay_MakeDate)
  have "YearFromTime lt = y" by (rule civil_year[OF assms(1-4) day])
  moreover have "MonthFromTime lt = m0 \<and> DateFromTime lt = d"
    by (rule civil_month_date[OF assms(1-4) day])
  moreover have "HourFromTime lt = h"
    by (simp add: HourFromTime_TimeWithinDay twd mt(3))
  moreover have "MinFromTime lt = mi"
    by (simp add: MinFromTime_TimeWithinDay twd mt(4))
  ultimately show ?thesis using twd by simp
qed

lemma getters_civil:
  assumes "0 \<le> m0" "m0 \<le> 11" "1 \<le> d" "d \<le> DaysInMonth y (m0 + 1)"
    and "0 \<le> h" "h \<le> 23" "0 \<le> mi" "mi \<le> 59" "0 \<le> sec" "sec \<le> 59" "0 \<le> ms" "ms \<le> 999"
    and "LocalTime zone t = MakeDate (MakeDay y m0 d) (MakeTime h mi sec ms)"
  shows "getFullYear zone (Some t) = Some y \<and> getMonth zone (Some t) = Some m0 \<and>
         getDate zone (Some t) = Some d \<and> getHours zone (Some t) = Some h \<and>
         getMinutes zone (Some t) = Some mi \<and>
         setFullYear zone (Some t) (Some y')
           = Some (UTC zone (MakeDate (MakeDay y' m0 d) (MakeTime h mi sec ms)))"
  using civil_fields [OF assms]
  by (simp add: getFullYear_def getMonth_def getDate_def getHours_def getMinutes_def
      setFullYear_def Let_def)

lemmas zone_eval = LocalTime_def UTC_def newYork_def atHour_def MakeDate_def MakeDay_def
  MakeTime_def DayFromYear_def monthStart_def leapDays_def DaysInYear_def DaysInMonth_def
  msPerDay_def Let_def

text \<open>
  With daylight saving the year that \<open>setFullYear\<close> adds need not have 365 or 366 days of 24
  hours: in New York, a year after noon of 13 March 2021 is noon of 13 March 2022, which is
  an hour less than 365 days later, the clocks having been advanced that morning.
\<close>

lemma oneYearLater_daylight_saving:
  "Date_parse newYork (ascii ''2021-03-13T12:00'') = Some (atHour 2021 3 13 17) \<and>
   oneYearLater newYork (Some (atHour 2021 3 13 17)) = Some (atHour 2022 3 13 16) \<and>
   atHour 2022 3 13 16 = atHour 2021 3 13 17 + 365 * msPerDay - 3600000"
proof -
  have n: "atHour 2021 3 13 17 = 1615654800000" and L: "atHour 2022 3 13 16 = 1647187200000"
    by (simp_all add: zone_eval)
  have a: "Date_parse newYork (ascii ''2021-03-13T12:00'') = Some 1615654800000"
    by (simp add: parse_eval ascii_def zone_eval)
  have "LocalTime newYork 1615654800000 = MakeDate (MakeDay 2021 2 13) (MakeTime 12 0 0 0)"
    by (simp add: zone_eval)
  note g = getters_civil [OF _ _ _ _ _ _ _ _ _ _ _ _ this, of 2022, simplified DaysInMonth_def, simplified]
  have u: "UTC newYork (MakeDate (MakeDay 2022 2 13) (MakeTime 12 0 0 0)) = 1647187200000"
    by (simp add: zone_eval)
  have b: "oneYearLater newYork (Some 1615654800000) = Some 1647187200000"
    using g u by (simp add: oneYearLater_def numberAdd_def)
  show ?thesis
    unfolding n L using a b by (simp add: msPerDay_def)
qed

text \<open>
  And a due time moved into the reference year can land in the hour that the clocks skip: in
  New York, 02:30 of 14 March 2023, moved into 2021, is a time of day that 14 March 2021
  does not have, and comes out as 03:30.
\<close>

lemma postprocess_due_at_daylight_saving:
  "res_due_at (postprocess (Date_parse newYork) newYork (rawDue ''2023-03-14T02:30'')
      (ascii ''2021-03-01T09:00'')) = Some (ascii ''2021-03-14T03:30'')"
proof -
  have n: "Date_parse newYork (ascii ''2021-03-01T09:00'') = Some 1614607200000"
    and p: "Date_parse newYork (ascii ''2023-03-14T02:30'') = Some 1678775400000"
    by (simp_all add: parse_eval ascii_def zone_eval)
  have "LocalTime newYork 1614607200000 = MakeDate (MakeDay 2021 2 1) (MakeTime 9 0 0 0)"
    by (simp add: zone_eval)
  note gn = getters_civil [OF _ _ _ _ _ _ _ _ _ _ _ _ this, of 2022, simplified DaysInMonth_def,
      simplified]
  have "UTC newYork (MakeDate (MakeDay 2022 2 1) (MakeTime 9 0 0 0)) = 1646143200000"
    by (simp add: zone_eval)
  then have L: "oneYearLater newYork (Some 1614607200000) = Some 1646143200000"
    using gn by (simp add: oneYearLater_def numberAdd_def)
  have "LocalTime newYork 1678775400000 = MakeDate (MakeDay 2023 2 14) (MakeTime 2 30 0 0)"
    by (simp add: zone_eval)
  note gp = getters_civil [OF _ _ _ _ _ _ _ _ _ _ _ _ this, of 2021, simplified DaysInMonth_def,
      simplified]
  have "UTC newYork (MakeDate (MakeDay 2021 2 14) (MakeTime 2 30 0 0)) = 1615707000000"
    by (simp add: zone_eval)
  then have q: "setFullYear newYork (Some 1678775400000) (Some 2021) = Some 1615707000000"
    using gp by simp
  have "LocalTime newYork 1615707000000 = MakeDate (MakeDay 2021 2 14) (MakeTime 3 30 0 0)"
    by (simp add: zone_eval)
  note gq = getters_civil [OF _ _ _ _ _ _ _ _ _ _ _ _ this, of 2021, simplified DaysInMonth_def,
      simplified]
  have f: "formatLocal newYork (Some 1615707000000) = ascii ''2021-03-14T03:30''"
    using gq by (simp add: formatLocal_def numberAdd_def show_eval)
  have ne: "ascii ''2023-03-14T02:30'' \<noteq> []"
    by (simp add: ascii_def)
  show ?thesis
    using n p L q f ne gn
    by (simp add: postprocess_def postprocessDueAt_def rawDue_def Let_def Date_lt_def)
qed

section \<open>The title of the postprocessor\<close>

lemma trim_id:
  assumes "s \<noteq> []" "\<not> isWhiteSpace (hd s)" "\<not> isWhiteSpace (last s)"
  shows "trim s = s"
proof -
  have a: "dropWhile isWhiteSpace s = s"
    using assms(1,2) by (cases s) simp_all
  have "rev s \<noteq> []" "\<not> isWhiteSpace (hd (rev s))"
    using assms(1,3) by (simp_all add: hd_rev)
  then have b: "dropWhile isWhiteSpace (rev s) = rev s"
    by (cases "rev s") simp_all
  show ?thesis by (simp add: trim_def a b)
qed

lemma last_dropWhile: "dropWhile P xs \<noteq> [] \<Longrightarrow> last (dropWhile P xs) = last xs"
  by (induction xs) (auto split: if_splits)

lemma trim_ends:
  assumes "trim s \<noteq> []"
  shows "\<not> isWhiteSpace (hd (trim s))" and "\<not> isWhiteSpace (last (trim s))"
proof -
  let ?u = "dropWhile isWhiteSpace s"
  let ?v = "dropWhile isWhiteSpace (rev ?u)"
  have t: "trim s = rev ?v" by (simp add: trim_def)
  have v: "?v \<noteq> []" using assms t by simp
  have u: "?u \<noteq> []"
  proof
    assume "?u = []"
    then have "?v = dropWhile isWhiteSpace (rev [])"
      by (rule arg_cong[where f = "\<lambda>x. dropWhile isWhiteSpace (rev x)"])
    then show False using v by simp
  qed
  have "\<not> isWhiteSpace (hd ?v)" using v by (rule hd_dropWhile)
  then show "\<not> isWhiteSpace (last (trim s))"
    using v by (simp add: t last_rev)
  have "last ?v = last (rev ?u)" using v by (rule last_dropWhile)
  also have "\<dots> = hd ?u" using u by (simp add: last_rev)
  finally have "hd (trim s) = hd ?u" using v by (simp add: t hd_rev)
  moreover have "\<not> isWhiteSpace (hd ?u)" using u by (rule hd_dropWhile)
  ultimately show "\<not> isWhiteSpace (hd (trim s))" by simp
qed

lemma last_rev_dropWhile:
  "rev (dropWhile P xs) = [] \<or> \<not> P (last (rev (dropWhile P xs)))"
proof (cases "dropWhile P xs")
  case Nil
  then show ?thesis by simp
next
  case (Cons y ys)
  then have "dropWhile P xs \<noteq> []" by simp
  then have "\<not> P (hd (dropWhile P xs))"
    by (rule hd_dropWhile)
  then show ?thesis
    by (simp add: Cons)
qed

lemma three_parts:
  "xs = rev (dropWhile Q (dropWhile P (rev xs))) @ rev (takeWhile Q (dropWhile P (rev xs)))
          @ rev (takeWhile P (rev xs))"
proof -
  have "takeWhile P (rev xs) @ (takeWhile Q (dropWhile P (rev xs))
          @ dropWhile Q (dropWhile P (rev xs))) = rev xs"
    by (simp only: takeWhile_dropWhile_id)
  then have "rev (takeWhile P (rev xs) @ (takeWhile Q (dropWhile P (rev xs))
          @ dropWhile Q (dropWhile P (rev xs)))) = rev (rev xs)"
    by (rule arg_cong)
  then show ?thesis
    by (simp only: rev_append rev_rev_ident append_assoc)
qed

lemma takeWhile_after_dropWhile_not:
  assumes "\<exists>c \<in> set xs. P c"
  shows "takeWhile P (dropWhile (\<lambda>c. \<not> P c) xs) \<noteq> []"
proof -
  have ne: "dropWhile (\<lambda>c. \<not> P c) xs \<noteq> []"
    using assms by simp
  then obtain y ys where y: "dropWhile (\<lambda>c. \<not> P c) xs = y # ys"
    by (cases "dropWhile (\<lambda>c. \<not> P c) xs") auto
  have "\<not> \<not> P (hd (dropWhile (\<lambda>c. \<not> P c) xs))"
    using ne by (rule hd_dropWhile)
  then have "P y" by (simp add: y)
  then show ?thesis by (simp add: y)
qed

lemma dropLastWord_split:
  assumes "\<exists>c \<in> set s. isWhiteSpace c"
  shows "\<exists>w b. s = dropLastWord s @ w @ b \<and> w \<noteq> [] \<and> (\<forall>c \<in> set w. isWhiteSpace c) \<and>
           (\<forall>c \<in> set b. \<not> isWhiteSpace c) \<and>
           (dropLastWord s = [] \<or> \<not> isWhiteSpace (last (dropLastWord s)))"
proof -
  define a w b where
    "a = rev (dropWhile isWhiteSpace (dropWhile (\<lambda>c. \<not> isWhiteSpace c) (rev s)))"
    and "w = rev (takeWhile isWhiteSpace (dropWhile (\<lambda>c. \<not> isWhiteSpace c) (rev s)))"
    and "b = rev (takeWhile (\<lambda>c. \<not> isWhiteSpace c) (rev s))"
  have d: "dropLastWord s = a"
    using assms by (simp add: dropLastWord_def a_def)
  have s: "s = a @ w @ b"
    unfolding a_def w_def b_def by (rule three_parts)
  have "\<exists>c \<in> set (rev s). isWhiteSpace c" using assms by simp
  then have w: "w \<noteq> []"
    unfolding w_def using takeWhile_after_dropWhile_not[of "rev s" isWhiteSpace] by simp
  have ws: "\<forall>c \<in> set w. isWhiteSpace c"
    unfolding w_def by (auto dest: set_takeWhileD)
  have bs: "\<forall>c \<in> set b. \<not> isWhiteSpace c"
    unfolding b_def by (auto dest: set_takeWhileD)
  have e: "a = [] \<or> \<not> isWhiteSpace (last a)"
    unfolding a_def by (rule last_rev_dropWhile)
  show ?thesis
    unfolding d using s w ws bs e by (intro exI conjI) assumption+
qed

lemma title_short:
  "length (trim rawTitle) < 2 \<Longrightarrow> postprocessTitle rawTitle = placeholderTitle"
  by (simp add: postprocessTitle_def TITLE_MIN_def TITLE_MAX_def placeholderTitle_def Let_def)

lemma title_kept:
  "2 \<le> length (trim rawTitle) \<Longrightarrow> length (trim rawTitle) \<le> 100 \<Longrightarrow>
   postprocessTitle rawTitle = trim rawTitle"
  by (auto simp: postprocessTitle_def TITLE_MIN_def TITLE_MAX_def Let_def)

lemma title_long:
  "100 < length (trim rawTitle) \<Longrightarrow>
   postprocessTitle rawTitle = trim (dropLastWord (take 100 (trim rawTitle))) @ [ellipsis]"
  by (auto simp: postprocessTitle_def TITLE_MIN_def TITLE_MAX_def Let_def)

lemma title_cut:
  assumes long: "100 < length (trim rawTitle)"
  shows "if \<exists>c \<in> set (take 100 (trim rawTitle)). isWhiteSpace c
     then \<exists>a w b. take 100 (trim rawTitle) = a @ w @ b \<and> a \<noteq> [] \<and> \<not> isWhiteSpace (last a) \<and>
            w \<noteq> [] \<and> (\<forall>c \<in> set w. isWhiteSpace c) \<and> (\<forall>c \<in> set b. \<not> isWhiteSpace c) \<and>
            postprocessTitle rawTitle = a @ [ellipsis]
     else postprocessTitle rawTitle = take 100 (trim rawTitle) @ [ellipsis]"
proof -
  define t where "t = trim rawTitle"
  define s where "s = take 100 t"
  have t: "t \<noteq> []" using long by (auto simp: t_def)
  have s: "s \<noteq> []" using t by (simp add: s_def)
  have "\<not> isWhiteSpace (hd t)"
    using t unfolding t_def by (rule trim_ends)
  then have hs: "\<not> isWhiteSpace (hd s)"
    using t by (simp add: s_def)
  have res: "postprocessTitle rawTitle = trim (dropLastWord s) @ [ellipsis]"
    using long by (simp add: title_long s_def t_def)
  show ?thesis
  proof (cases "\<exists>c \<in> set s. isWhiteSpace c")
    case False
    then have "\<not> isWhiteSpace (last s)" using s by auto
    then have "trim s = s" using s hs by (intro trim_id)
    moreover have "dropLastWord s = s" using False by (simp add: dropLastWord_def)
    ultimately show ?thesis
      using False res by (simp add: s_def t_def)
  next
    case True
    define a where "a = dropLastWord s"
    obtain w b where sp: "s = a @ w @ b" and w: "w \<noteq> []"
      and ws: "\<forall>c \<in> set w. isWhiteSpace c" and bs: "\<forall>c \<in> set b. \<not> isWhiteSpace c"
      and e: "a = [] \<or> \<not> isWhiteSpace (last a)"
      using dropLastWord_split[OF True] unfolding a_def by blast
    have a: "a \<noteq> []"
    proof
      assume "a = []"
      then have "hd s = hd w" using sp w by simp
      moreover have "isWhiteSpace (hd w)" using w ws by simp
      ultimately show False using hs by simp
    qed
    then have la: "\<not> isWhiteSpace (last a)" using e by simp
    have "hd a = hd s" using sp a by simp
    then have "trim a = a" using a la hs by (intro trim_id) simp_all
    then have "postprocessTitle rawTitle = a @ [ellipsis]"
      using res by (simp add: a_def)
    then have "s = a @ w @ b \<and> a \<noteq> [] \<and> \<not> isWhiteSpace (last a) \<and>
            w \<noteq> [] \<and> (\<forall>c \<in> set w. isWhiteSpace c) \<and> (\<forall>c \<in> set b. \<not> isWhiteSpace c) \<and>
            postprocessTitle rawTitle = a @ [ellipsis]"
      using sp a la w ws bs by (intro conjI)
    then have "\<exists>a w b. s = a @ w @ b \<and> a \<noteq> [] \<and> \<not> isWhiteSpace (last a) \<and>
            w \<noteq> [] \<and> (\<forall>c \<in> set w. isWhiteSpace c) \<and> (\<forall>c \<in> set b. \<not> isWhiteSpace c) \<and>
            postprocessTitle rawTitle = a @ [ellipsis]"
      by (intro exI)
    then show ?thesis
      using True by (simp only: s_def t_def if_True)
  qed
qed

lemma title_long_shape:
  assumes long: "100 < length (trim rawTitle)"
  shows "length (postprocessTitle rawTitle) \<le> 101 \<and> last (postprocessTitle rawTitle) = ellipsis"
proof (cases "\<exists>c \<in> set (take 100 (trim rawTitle)). isWhiteSpace c")
  case True
  then obtain a w b where sp: "take 100 (trim rawTitle) = a @ w @ b"
    and res: "postprocessTitle rawTitle = a @ [ellipsis]"
    using title_cut[OF long] by auto
  have "length (take 100 (trim rawTitle)) = length (a @ w @ b)"
    using sp by (rule arg_cong)
  then have "length a \<le> 100" by simp
  then show ?thesis by (simp add: res)
next
  case False
  then have "postprocessTitle rawTitle = take 100 (trim rawTitle) @ [ellipsis]"
    using title_cut[OF long] by simp
  then show ?thesis by simp
qed

text \<open>
  Claim C7, as the code has it. The raw title is trimmed. Shorter than 2 code units, it is
  replaced by the placeholder; of 2 to 100 code units, it is returned as trimmed; longer, the
  result has at most 101 code units and ends in the ellipsis, and it is cut as follows: when
  the first 100 code units hold white space, they are cut before their last run of white
  space, so that the word or part of a word after that run is dropped; when they hold none,
  all 100 are kept.
\<close>

theorem postprocessTitle_cases:
  "(length (trim rawTitle) < 2 \<longrightarrow> postprocessTitle rawTitle = placeholderTitle) \<and>
   (2 \<le> length (trim rawTitle) \<and> length (trim rawTitle) \<le> 100 \<longrightarrow>
      postprocessTitle rawTitle = trim rawTitle) \<and>
   (100 < length (trim rawTitle) \<longrightarrow>
      length (postprocessTitle rawTitle) \<le> 101 \<and> last (postprocessTitle rawTitle) = ellipsis \<and>
      (if \<exists>c \<in> set (take 100 (trim rawTitle)). isWhiteSpace c
       then \<exists>a w b. take 100 (trim rawTitle) = a @ w @ b \<and> a \<noteq> [] \<and> \<not> isWhiteSpace (last a) \<and>
              w \<noteq> [] \<and> (\<forall>c \<in> set w. isWhiteSpace c) \<and> (\<forall>c \<in> set b. \<not> isWhiteSpace c) \<and>
              postprocessTitle rawTitle = a @ [ellipsis]
       else postprocessTitle rawTitle = take 100 (trim rawTitle) @ [ellipsis]))"
  using title_short[of rawTitle] title_kept[of rawTitle] title_long_shape[of rawTitle]
    title_cut[of rawTitle]
  by (intro conjI impI) simp_all

lemma ws_facts: "\<not> isWhiteSpace 0x61" "\<not> isWhiteSpace 0x62" "\<not> isWhiteSpace 0x63"
  "isWhiteSpace 0x20"
  by (simp_all add: isWhiteSpace_def)

lemma longTitle_trim: "trim longTitle = longTitle"
  by (rule trim_id) (simp_all add: longTitle_def ws_facts hd_append last_append)

lemma longTitle_take: "take 100 longTitle = replicate 50 0x61 @ [0x20] @ replicate 49 0x62"
  by (simp add: longTitle_def)

lemma longTitle_drop:
  "dropLastWord (replicate 50 0x61 @ [0x20] @ replicate 49 0x62) = replicate 50 0x61"
proof -
  have "dropWhile (\<lambda>c. \<not> isWhiteSpace c) (replicate 49 0x62 @ 0x20 # replicate 50 0x61)
      = 0x20 # replicate 50 0x61"
    by (subst dropWhile_append2) (simp_all add: ws_facts)
  moreover have "dropWhile isWhiteSpace (replicate 50 (0x61 :: 16 word)) = replicate 50 0x61"
    by (subst dropWhile_eq_self_iff) (simp add: ws_facts eval_nat_numeral)
  ultimately show ?thesis
    by (simp add: dropLastWord_def ws_facts)
qed

lemma longTitle_result: "postprocessTitle longTitle = replicate 50 0x61 @ [ellipsis]"
proof -
  have t: "trim (replicate 50 (0x61 :: 16 word)) = replicate 50 0x61"
    by (rule trim_id) (simp_all add: ws_facts eval_nat_numeral)
  have "length longTitle = 151"
    by (simp add: longTitle_def)
  then have "100 < length (trim longTitle)"
    by (simp add: longTitle_trim)
  then have "postprocessTitle longTitle
      = trim (dropLastWord (take 100 (trim longTitle))) @ [ellipsis]"
    by (rule title_long)
  then show ?thesis
    by (simp only: longTitle_trim longTitle_take longTitle_drop t)
qed

lemma longTitle_wordEnd: "isWordEnd (trim longTitle) 100"
proof -
  have a: "longTitle ! 99 = 0x62"
    by (simp add: longTitle_def nth_append)
  have b: "longTitle ! 100 = 0x20"
    by (simp add: longTitle_def nth_append)
  have "length longTitle = 151"
    by (simp add: longTitle_def)
  then show ?thesis
    by (simp add: isWordEnd_def longTitle_trim a b ws_facts)
qed

theorem postprocessTitle_cases_witness:
  "postprocessTitle (ascii '' x '') = placeholderTitle \<and>
   postprocessTitle (ascii ''  Buy milk  '') = ascii ''Buy milk'' \<and>
   length (postprocessTitle longTitle) \<le> 101 \<and>
   last (postprocessTitle longTitle) = ellipsis"
proof -
  have t1: "trim (ascii '' x '') = ascii ''x''"
    and t2: "trim (ascii ''  Buy milk  '') = ascii ''Buy milk''"
    by (simp_all add: trim_def ascii_def isWhiteSpace_def)
  have a: "postprocessTitle (ascii '' x '') = placeholderTitle"
    using postprocessTitle_cases [of "ascii '' x ''"] by (simp add: t1) (simp add: ascii_def)
  have b: "postprocessTitle (ascii ''  Buy milk  '') = ascii ''Buy milk''"
    using postprocessTitle_cases [of "ascii ''  Buy milk  ''"] by (simp add: t2) (simp add: ascii_def)
  have "length longTitle = 151"
    by (simp add: longTitle_def)
  then have "100 < length (trim longTitle)"
    by (simp add: longTitle_trim)
  then have c: "length (postprocessTitle longTitle) \<le> 101 \<and> last (postprocessTitle longTitle) = ellipsis"
    using postprocessTitle_cases [of longTitle] by blast
  show ?thesis using a b c by blast
qed

text \<open>
  A word that ends at offset 100 is dropped too: in \<open>longTitle\<close> the second word ends there,
  and the result is cut after the first word, at offset 50.
\<close>

theorem postprocessTitle_cuts_before_last_word:
  "length (trim longTitle) = 151 \<and>
   isWordEnd (trim longTitle) 100 \<and>
   postprocessTitle longTitle = take 50 (trim longTitle) @ [ellipsis] \<and>
   postprocessTitle longTitle \<noteq> take 100 (trim longTitle) @ [ellipsis]"
proof -
  have l: "length longTitle = 151"
    by (simp add: longTitle_def)
  have t50: "take 50 longTitle = replicate 50 0x61"
    by (simp add: longTitle_def)
  have "length (postprocessTitle longTitle) = 51"
    by (simp add: longTitle_result)
  moreover have "length (take 100 (trim longTitle) @ [ellipsis]) = 101"
    by (simp add: longTitle_trim l)
  ultimately have ne: "postprocessTitle longTitle \<noteq> take 100 (trim longTitle) @ [ellipsis]"
    by auto
  have len: "length (trim longTitle) = 151"
    by (simp add: longTitle_trim l)
  have res: "postprocessTitle longTitle = take 50 (trim longTitle) @ [ellipsis]"
    by (simp add: longTitle_trim longTitle_result t50)
  show ?thesis
    using len longTitle_wordEnd res ne by (intro conjI)
qed

section \<open>The lists of today and of the week\<close>

lemma LocalTime_UTC: "LocalTime (fixedZone off) (UTC (fixedZone off) t) = t"
  by (simp add: LocalTime_def UTC_def fixedZone_def)

lemma MakeDay_shift: "MakeDay (YearFromTime t) (MonthFromTime t) (DateFromTime t + k) = Day t + k"
proof -
  have "MakeDay (YearFromTime t) (MonthFromTime t) (DateFromTime t + k)
      = MakeDay (YearFromTime t) (MonthFromTime t) (DateFromTime t) + k"
    using MonthFromTime_range [of t] by (simp add: MakeDay_month)
  then show ?thesis by (simp add: MakeDay_fields)
qed

lemma setDate_local:
  "setDate zone (Some t) (Some (DateFromTime (LocalTime zone t) + k))
     = Some (UTC zone (MakeDate (Day (LocalTime zone t) + k) (TimeWithinDay (LocalTime zone t))))"
  by (simp add: setDate_def Let_def MakeDay_shift)

lemma setHours_local:
  assumes "0 \<le> tod" "tod < msPerDay"
  shows "setHours (fixedZone off) (Some (UTC (fixedZone off) (MakeDate day tod))) h m s ms
     = Some (UTC (fixedZone off) (MakeDate day (MakeTime h m s ms)))"
  using assms by (simp add: setHours_def LocalTime_UTC Day_MakeDate)

lemma computeStats_weekMonday:
  assumes "parse nowStr = Some n"
  shows "ps_weekMonday (computeStats parse (fixedZone off) todos nowStr)
     = Some (UTC (fixedZone off) (MakeDate (mondayOf (LocalTime (fixedZone off) n)) 0))"
proof -
  let ?lt = "LocalTime (fixedZone off) n"
  let ?k = "if WeekDay ?lt = 0 then 6 else WeekDay ?lt - 1"
  have "ps_weekMonday (computeStats parse (fixedZone off) todos nowStr)
      = setHours (fixedZone off) (setDate (fixedZone off) (Some n) (Some (DateFromTime ?lt + (- ?k)))) 0 0 0 0"
    using assms by (simp add: computeStats_def Let_def getDate_def getDay_def)
  also have "\<dots> = setHours (fixedZone off) (Some (UTC (fixedZone off) (MakeDate (Day ?lt + (- ?k)) (TimeWithinDay ?lt)))) 0 0 0 0"
    by (simp only: setDate_local)
  also have "\<dots> = Some (UTC (fixedZone off) (MakeDate (Day ?lt + (- ?k)) (MakeTime 0 0 0 0)))"
    using TimeWithinDay_range [of ?lt] by (simp only: setHours_local)
  finally show ?thesis by (simp add: mondayOf_def MakeTime_def)
qed

lemma computeStats_weekSunday:
  assumes "parse nowStr = Some n"
  shows "ps_weekSunday (computeStats parse (fixedZone off) todos nowStr)
     = Some (UTC (fixedZone off) (MakeDate (mondayOf (LocalTime (fixedZone off) n) + 6) (msPerDay - 1)))"
proof -
  let ?mon = "mondayOf (LocalTime (fixedZone off) n)"
  let ?m = "UTC (fixedZone off) (MakeDate ?mon 0)"
  have d: "Day (LocalTime (fixedZone off) ?m) = ?mon" and t: "TimeWithinDay (LocalTime (fixedZone off) ?m) = 0"
    by (simp_all add: LocalTime_UTC Day_MakeDate TimeWithinDay_MakeDate msPerDay_def)
  have "ps_weekSunday (computeStats parse (fixedZone off) todos nowStr)
      = setHours (fixedZone off) (setDate (fixedZone off) (ps_weekMonday (computeStats parse (fixedZone off) todos nowStr))
          (numberAdd (getDate (fixedZone off) (ps_weekMonday (computeStats parse (fixedZone off) todos nowStr))) 6))
          23 59 59 999"
    by (simp add: computeStats_def Let_def)
  also have "\<dots> = setHours (fixedZone off) (setDate (fixedZone off) (Some ?m) (Some (DateFromTime (LocalTime (fixedZone off) ?m) + 6)))
          23 59 59 999"
    by (simp add: computeStats_weekMonday [where parse = parse and nowStr = nowStr, OF assms]
        getDate_def numberAdd_def)
  also have "\<dots> = setHours (fixedZone off) (Some (UTC (fixedZone off) (MakeDate (?mon + 6) 0))) 23 59 59 999"
    by (simp only: setDate_local d t)
  also have "\<dots> = Some (UTC (fixedZone off) (MakeDate (?mon + 6) (MakeTime 23 59 59 999)))"
    by (rule setHours_local) (simp_all add: msPerDay_def)
  finally show ?thesis by (simp add: MakeTime_def msPerDay_def)
qed

lemma mondayOf_week:
  "WeekDay (MakeDate (mondayOf lt) 0) = 1 \<and> mondayOf lt \<le> Day lt \<and> Day lt \<le> mondayOf lt + 6"
proof -
  have d: "Day (MakeDate (mondayOf lt) 0) = mondayOf lt"
    by (simp add: Day_MakeDate msPerDay_def)
  have e: "WeekDay (MakeDate (mondayOf lt) 0) = (mondayOf lt + 4) mod 7"
    by (simp add: WeekDay_def d)
  show ?thesis
    unfolding e unfolding mondayOf_def WeekDay_def by presburger
qed

lemma computeStats_weekTasks:
  "ps_weekTasks (computeStats parse zone todos nowStr)
     = filter (dueWithin parse (ps_weekMonday (computeStats parse zone todos nowStr))
                               (ps_weekSunday (computeStats parse zone todos nowStr))) todos"
  by (simp add: computeStats_def Let_def)

text \<open>
  The week list, in a time zone with a fixed offset: the todos due from Monday 00:00:00.000
  to Sunday 23:59:59.999, local time, of the week of the reference instant.
\<close>

lemma computeStats_week:
  assumes "parse nowStr = Some n"
  shows "ps_weekTasks (computeStats parse (fixedZone off) todos nowStr)
     = filter (\<lambda>t. case due_at t of None \<Rightarrow> False
                  | Some s \<Rightarrow> s \<noteq> [] \<and>
                      (case parse s of None \<Rightarrow> False
                       | Some p \<Rightarrow> MakeDate (mondayOf (LocalTime (fixedZone off) n)) 0 \<le> LocalTime (fixedZone off) p \<and>
                           LocalTime (fixedZone off) p \<le> MakeDate (mondayOf (LocalTime (fixedZone off) n) + 6) (msPerDay - 1)))
         todos"
  unfolding computeStats_weekTasks
    computeStats_weekMonday [where parse = parse and nowStr = nowStr, OF assms]
    computeStats_weekSunday [where parse = parse and nowStr = nowStr, OF assms]
  by (rule filter_cong [OF refl])
     (auto simp add: dueWithin_def truthy_def Date_le_def UTC_def LocalTime_def fixedZone_def
       split: option.splits)

lemma computeStats_todayStr:
  assumes "parse nowStr = Some n" and "localFields zone n = (Y, M, D, H, Mi)"
  shows "ps_todayStr (computeStats parse zone todos nowStr)
     = numberToString (Some Y) @ [0x2D] @ twoDigits M @ [0x2D] @ twoDigits D"
  using assms
  by (simp add: computeStats_def Let_def localFields_def twoDigits_def getFullYear_def
      getMonth_def getDate_def numberAdd_def)

lemma computeStats_todayTasks:
  "ps_todayTasks (computeStats parse zone todos nowStr)
     = filter (\<lambda>t. case due_at t of None \<Rightarrow> False
                  | Some s \<Rightarrow> startsWith s (ps_todayStr (computeStats parse zone todos nowStr)))
         todos"
  by (simp add: computeStats_def Let_def cong: option.case_cong)

lemma isSameLocalDay_fields:
  assumes "parse s = Some p" and "localFields zone p = (y, m, d, h, mi)"
    and "localFields zone n = (Y, M, D, H, Mi)"
  shows "isSameLocalDay parse zone s (Some n) \<longleftrightarrow> y = Y \<and> m = M \<and> d = D"
  using assms
  by (auto simp add: isSameLocalDay_def Let_def localFields_def strictEq_def getFullYear_def
      getMonth_def getDate_def)

lemma parse_stored:
  "Date_parse KST (ascii ''2026-02-18T09:00'')
     = Some (UTC KST (MakeDate (MakeDay 2026 1 18) (MakeTime 9 0 0 0)))"
  "Date_parse KST (ascii ''2026-02-17T15:30:00.000Z'')
     = Some (UTC KST (MakeDate (MakeDay 2026 1 18) (MakeTime 0 30 0 0)))"
  "Date_parse KST (ascii ''2026-02-18T15:30:00.000Z'')
     = Some (UTC KST (MakeDate (MakeDay 2026 1 19) (MakeTime 0 30 0 0)))"
  by (simp_all add: parse_eval ascii_def civil_eval)

lemma fields_stored:
  "localFields KST (UTC KST (MakeDate (MakeDay 2026 1 18) (MakeTime 9 0 0 0))) = (2026, 2, 18, 9, 0)"
  "localFields KST (UTC KST (MakeDate (MakeDay 2026 1 18) (MakeTime 0 30 0 0))) = (2026, 2, 18, 0, 30)"
  "localFields KST (UTC KST (MakeDate (MakeDay 2026 1 19) (MakeTime 0 30 0 0))) = (2026, 2, 19, 0, 30)"
  using localFields_civil[of 1 18 2026 9 0 0 0 32400000, folded KST_def] localFields_civil[of 1 18 2026 0 30 0 0 32400000, folded KST_def]
    localFields_civil[of 1 19 2026 0 30 0 0 32400000, folded KST_def]
  by (simp_all add: DaysInMonth_def leapDays_def DaysInYear_def)

text \<open>
  Claim C4 says that the list of today holds the todos whose due time falls on the calendar
  date of the reference instant. The code compares texts: it keeps the todos whose \<open>due_at\<close>
  starts with the local date of the reference instant, and the due times are stored in UTC
  (\<open>toISOString\<close>). In Korean time, with the reference instant 2026-02-18T09:00, a todo due
  at 00:30 on 18 February (stored as 2026-02-17T15:30:00.000Z) is left out and a todo due at
  00:30 on 19 February (stored as 2026-02-18T15:30:00.000Z) is taken in; \<open>isSameLocalDay\<close>
  of the client, which compares the local year, month and day, has it the other way round.
\<close>

theorem todayTasks_by_text_not_by_date:
  "ps_todayStr (computeStats (Date_parse KST) KST aroundMidnight (ascii ''2026-02-18T09:00''))
     = ascii ''2026-02-18'' \<and>
   ps_todayTasks (computeStats (Date_parse KST) KST aroundMidnight (ascii ''2026-02-18T09:00''))
     = [aroundMidnight ! 1] \<and>
   filter (dueToday (Date_parse KST) KST (ascii ''2026-02-18T09:00'')) aroundMidnight
     = [aroundMidnight ! 0]"
proof -
  let ?now = "ascii ''2026-02-18T09:00''"
  have str: "ps_todayStr (computeStats (Date_parse KST) KST aroundMidnight ?now) = ascii ''2026-02-18''"
    unfolding computeStats_todayStr [where parse = "Date_parse KST" and nowStr = ?now,
        OF parse_stored(1) fields_stored(1)]
    by (simp add: show_eval)
  have due: "due_at (aroundMidnight ! 0) = Some (ascii ''2026-02-17T15:30:00.000Z'')"
      "due_at (aroundMidnight ! 1) = Some (ascii ''2026-02-18T15:30:00.000Z'')"
      "due_at (aroundMidnight ! Suc 0) = Some (ascii ''2026-02-18T15:30:00.000Z'')"
    by (simp_all add: aroundMidnight_def mkTodo_def)
  have two: "aroundMidnight = [aroundMidnight ! 0, aroundMidnight ! 1]"
    by (simp add: aroundMidnight_def)
  have sw: "\<not> startsWith (ascii ''2026-02-17T15:30:00.000Z'') (ascii ''2026-02-18'')"
      "startsWith (ascii ''2026-02-18T15:30:00.000Z'') (ascii ''2026-02-18'')"
    by (simp_all add: startsWith_def ascii_def)
  have code: "ps_todayTasks (computeStats (Date_parse KST) KST aroundMidnight ?now)
      = [aroundMidnight ! 1]"
    unfolding computeStats_todayTasks str
    by (subst two) (simp add: due sw)
  have ne: "ascii ''2026-02-17T15:30:00.000Z'' \<noteq> []" "ascii ''2026-02-18T15:30:00.000Z'' \<noteq> []"
    by (simp_all add: ascii_def)
  have same: "isSameLocalDay (Date_parse KST) KST (ascii ''2026-02-17T15:30:00.000Z'')
        (Date_parse KST ?now)"
      "\<not> isSameLocalDay (Date_parse KST) KST (ascii ''2026-02-18T15:30:00.000Z'')
        (Date_parse KST ?now)"
    unfolding parse_stored(1)
    using isSameLocalDay_fields [where parse = "Date_parse KST", OF parse_stored(2) fields_stored(2)
        fields_stored(1)]
      isSameLocalDay_fields [where parse = "Date_parse KST", OF parse_stored(3) fields_stored(3)
        fields_stored(1)]
    by simp_all
  have spec: "filter (dueToday (Date_parse KST) KST ?now) aroundMidnight = [aroundMidnight ! 0]"
    by (subst two) (simp add: dueToday_def due ne same)
  show ?thesis using str code spec by (intro conjI)
qed

end
